theory Spec2Isabelle
  imports Complex_Main "HOL-Library.Word" "HOL-Library.Signed_Division"
begin

section \<open>The document-store manipulator (manipmongo/manipulator.go)\<close>

text \<open>
  A shallow embedding of \<^verbatim>\<open>mongoManipulator\<close>. Mutation of the manipulator, of the
  transactions it holds and of the objects passed in by pointer is explicit state passing:
  every operation takes the manipulator state and the objects and returns both, updated,
  with the value the Go method returns. Tracing spans are a write-only sink that no
  result depends on and are left out.
\<close>

subsection \<open>Go's \<^verbatim>\<open>int\<close>\<close>

text \<open>
  Go's \<^verbatim>\<open>int\<close> on the 64-bit targets: two's complement, \<^verbatim>\<open>+\<close>, \<^verbatim>\<open>-\<close> and \<^verbatim>\<open>*\<close>
  wrap around, comparisons are signed, \<^verbatim>\<open>/\<close> truncates towards zero, \<^verbatim>\<open>%\<close> takes the
  sign of the dividend, and both panic on a zero divisor.
\<close>

type_synonym go_int = "64 word"

definition go_quo :: "go_int \<Rightarrow> go_int \<Rightarrow> go_int option" where
  "go_quo a b = (if b = 0 then None else Some (word_of_int (sint a sdiv sint b)))"

definition go_rem :: "go_int \<Rightarrow> go_int \<Rightarrow> go_int option" where
  "go_rem a b = (if b = 0 then None else Some (word_of_int (sint a smod sint b)))"

subsection \<open>Objects, documents and errors\<close>

datatype bval = BString string | BInt int | BBool bool | BDoc "(string \<times> bval) list"

text \<open>\<^verbatim>\<open>bson.M\<close>: a Go map from keys to values.\<close>

type_synonym bsonM = "string \<rightharpoonup> bval"

record Identity =
  Name :: string
  Category :: string

text \<open>
  An \<^verbatim>\<open>elemental.Identifiable\<close>: its identity, its identifier, its fields, and, when the
  object also is an \<^verbatim>\<open>elemental.AttributeSpecifiable\<close>, the defaults its schema declares.
\<close>

record obj =
  identity :: Identity
  Identifier :: string
  attributes :: "(string \<times> bval) list"
  defaults :: "(string \<times> bval) list option"

text \<open>An \<^verbatim>\<open>elemental.ContentIdentifiable\<close>: a list of objects of one identity.\<close>

record ContentIdentifiable =
  ContentIdentity :: Identity
  List :: "obj list"

datatype error =
    ErrObjectNotFound string
  | ErrCannotExecuteQuery string
  | ErrTransactionNotFound string
  | ErrConstraintViolation string
  | ErrCannotCommit string
  | ErrCallback string

text \<open>What a method returns: \<^verbatim>\<open>nil\<close>, an error, or a run-time panic.\<close>

datatype outcome = Ok | Err error | Panic string

text \<open>
  Modelled from the spec: the zero test of the backport belongs to the elemental library.
  The storage-native zero value of a field is the zero value of its type.
\<close>

fun is_zero :: "bval \<Rightarrow> bool" where
  "is_zero (BString s) = (s = [])"
| "is_zero (BInt i) = (i = 0)"
| "is_zero (BBool b) = (\<not> b)"
| "is_zero (BDoc d) = (d = [])"

text \<open>
  Modelled from the spec: one field under the backport (elemental library). A field that
  holds the zero value and has a declared default takes that default; any other field is
  left alone.
\<close>

definition reset_field :: "(string \<times> bval) list \<Rightarrow> string \<times> bval \<Rightarrow> string \<times> bval" where
  "reset_field ds kv =
     (case map_of ds (fst kv) of
        None \<Rightarrow> kv
      | Some d \<Rightarrow> if is_zero (snd kv) then (fst kv, d) else kv)"

text \<open>
  Modelled from the spec: \<^verbatim>\<open>elemental.ResetDefaultForZeroValues\<close> belongs to the elemental
  library. The glossary describes the backport as the normalization that restores
  schema-declared defaults over storage-native zero values, field by field.
\<close>

definition ResetDefaultForZeroValues :: "(string \<times> bval) list \<Rightarrow> obj \<Rightarrow> obj" where
  "ResetDefaultForZeroValues ds ob = ob\<lparr>attributes := map (reset_field ds) (attributes ob)\<rparr>"

text \<open>
  The guarded call of the source,
  \<^verbatim>\<open>if a, ok := o.(elemental.AttributeSpecifiable); ok { elemental.ResetDefaultForZeroValues(a) }\<close>.
\<close>

definition backport :: "obj \<Rightarrow> obj" where
  "backport ob = (case defaults ob of None \<Rightarrow> ob | Some ds \<Rightarrow> ResetDefaultForZeroValues ds ob)"

subsection \<open>Bulk batches, transactions and the manipulator\<close>

text \<open>The operations an \<^verbatim>\<open>mgo.Bulk\<close> accumulates, in staging order.\<close>

datatype op = BulkInsert obj | BulkUpdate bsonM obj | BulkRemove bsonM | BulkRemoveAll bsonM

type_synonym TransactionID = string

text \<open>
  Modelled from the spec: the \<^verbatim>\<open>transaction\<close> type is declared in another file of the
  package. The spec gives a transaction a unique id, one backend session and a mapping from
  category to Bulk Batch whose batches run in batch-creation order at Commit: \<open>bulks\<close> is
  an association list in creation order, and a session is the number it was opened under.
\<close>

record transaction =
  id :: TransactionID
  session :: nat
  bulks :: "(Identity \<times> op list) list"

text \<open>The round trips to the backend, as the manipulator issues them.\<close>

datatype event =
    EvCount Identity bsonM
  | EvAll Identity bsonM "(go_int \<times> go_int) option"
  | EvOne Identity bsonM
  | EvRun Identity "op list"

datatype reg_event = Registered TransactionID | Unregistered TransactionID

text \<open>
  The manipulator and what it owns: the transaction registry, the sessions copied from
  the root session and not closed yet, the round trips made so far (\<open>io\<close>), the registry
  insertions and removals made so far (\<open>reg_log\<close>), and how many sessions, object
  identifiers and transaction identifiers have been drawn.
\<close>

record mongoManipulator =
  transactions :: "TransactionID \<rightharpoonup> transaction"
  open_sessions :: "nat set"
  next_session :: nat
  io :: "event list"
  reg_log :: "reg_event list"
  oid_count :: nat
  tid_count :: nat

datatype one_result = OneFound obj | OneNotFound | OneErr string

datatype run_result = RunOk | RunDup string | RunErr string

text \<open>
  What the manipulator calls and this repository does not define. The database answers a
  round trip in the light of the round trips before it; \<open>db_run\<close> tells a duplicate-key
  failure (\<^verbatim>\<open>mgo.IsDup\<close>) from any other. \<open>NewObjectId n\<close> and \<open>NewTransactionID n\<close>
  are the \<open>n\<close>-th identifiers drawn from \<^verbatim>\<open>bson.NewObjectId().Hex()\<close> and
  \<^verbatim>\<open>manipulate.NewTransactionID()\<close>.
\<close>

record 'f env =
  CompileFilter :: "'f \<Rightarrow> bsonM"
  NewObjectId :: "nat \<Rightarrow> string"
  NewTransactionID :: "nat \<Rightarrow> TransactionID"
  db_count :: "event list \<Rightarrow> Identity \<Rightarrow> bsonM \<Rightarrow> string + go_int"
  db_all :: "event list \<Rightarrow> Identity \<Rightarrow> bsonM \<Rightarrow> (go_int \<times> go_int) option \<Rightarrow> string + obj list"
  db_one :: "event list \<Rightarrow> Identity \<Rightarrow> bsonM \<Rightarrow> obj \<Rightarrow> one_result"
  db_run :: "event list \<Rightarrow> Identity \<Rightarrow> op list \<Rightarrow> run_result"

text \<open>
  A \<^verbatim>\<open>manipulate.Context\<close>. The finalizer is the caller's callback: it may change the
  object it is given and may fail.
\<close>

record 'f Context =
  Filter :: "'f option"
  Page :: go_int
  PageSize :: go_int
  TransactionID :: TransactionID
  CreateFinalizer :: "(obj \<Rightarrow> obj \<times> string option) option"

text \<open>
  Modelled from the spec: \<^verbatim>\<open>manipulate.NewContext\<close> is defined in the parent package;
  the spec's default empty context has Page = 0, PageSize = 0 and no filter.
\<close>

definition NewContext :: "'f Context" where
  "NewContext = \<lparr>Filter = None, Page = 0, PageSize = 0, TransactionID = [], CreateFinalizer = None\<rparr>"

definition context_or_new :: "'f Context option \<Rightarrow> 'f Context" where
  "context_or_new context = (case context of None \<Rightarrow> NewContext | Some c \<Rightarrow> c)"

definition compiled_filter :: "'f env \<Rightarrow> 'f Context \<Rightarrow> bsonM" where
  "compiled_filter E context =
     (case Filter context of None \<Rightarrow> Map.empty | Some f \<Rightarrow> CompileFilter E f)"

text \<open>\<^verbatim>\<open>rootSession.Copy()\<close> and \<^verbatim>\<open>session.Close()\<close>.\<close>

definition session_copy :: "mongoManipulator \<Rightarrow> nat \<times> mongoManipulator" where
  "session_copy s =
     (next_session s,
      s\<lparr>open_sessions := insert (next_session s) (open_sessions s),
        next_session := Suc (next_session s)\<rparr>)"

definition session_close :: "nat \<Rightarrow> mongoManipulator \<Rightarrow> mongoManipulator" where
  "session_close n s = s\<lparr>open_sessions := open_sessions s - {n}\<rparr>"

subsection \<open>The transaction registry\<close>

text \<open>
  The registry, the constructor of transactions and their methods are defined in other
  files of the package; each is modelled from what the spec says of it. \<open>reg_log\<close> records
  the insertions and removals.
\<close>

text \<open>
  Modelled from the spec: \<^verbatim>\<open>transactionWithID(id)\<close> returns the transaction or not-found.
\<close>

definition transactionWithID :: "mongoManipulator \<Rightarrow> TransactionID \<Rightarrow> transaction option" where
  "transactionWithID s tid = transactions s tid"

text \<open>
  Modelled from the spec: \<^verbatim>\<open>registerTransaction(id, t)\<close> inserts unconditionally; the
  last write wins.
\<close>

definition registerTransaction :: "TransactionID \<Rightarrow> transaction \<Rightarrow> mongoManipulator \<Rightarrow> mongoManipulator" where
  "registerTransaction tid t s =
     s\<lparr>transactions := (transactions s)(tid \<mapsto> t), reg_log := reg_log s @ [Registered tid]\<rparr>"

text \<open>Modelled from the spec: \<^verbatim>\<open>unregisterTransaction(id)\<close> removes the entry of the id.\<close>

definition unregisterTransaction :: "TransactionID \<Rightarrow> mongoManipulator \<Rightarrow> mongoManipulator" where
  "unregisterTransaction tid s =
     s\<lparr>transactions := (transactions s)(tid := None), reg_log := reg_log s @ [Unregistered tid]\<rparr>"

text \<open>
  Modelled from the spec: \<^verbatim>\<open>newTransaction\<close> makes a transaction of the given id that
  owns one backend session, a copy of the root session, and has no batch yet.
\<close>

definition newTransaction :: "TransactionID \<Rightarrow> mongoManipulator \<Rightarrow> transaction \<times> mongoManipulator" where
  "newTransaction tid s =
     (case session_copy s of (n, s') \<Rightarrow> (\<lparr>id = tid, session = n, bulks = []\<rparr>, s'))"

text \<open>Modelled from the spec: \<^verbatim>\<open>closeSession\<close> releases the session of the transaction.\<close>

definition closeSession :: "transaction \<Rightarrow> mongoManipulator \<Rightarrow> mongoManipulator" where
  "closeSession t s = session_close (session t) s"

text \<open>
  Modelled from the spec: \<^verbatim>\<open>bulkForIdentity\<close> obtains the batch of the category or, when
  there is none, creates it empty; a batch created later runs later at Commit.
\<close>

definition bulkForIdentity :: "Identity \<Rightarrow> transaction \<Rightarrow> transaction" where
  "bulkForIdentity i t =
     (case map_of (bulks t) i of
        Some b \<Rightarrow> t
      | None \<Rightarrow> t\<lparr>bulks := bulks t @ [(i, [])]\<rparr>)"

text \<open>
  A method called on the transaction that the registry holds under \<open>tid\<close> changes that
  transaction in place.
\<close>

definition update_transaction :: "TransactionID \<Rightarrow> (transaction \<Rightarrow> transaction) \<Rightarrow> mongoManipulator
    \<Rightarrow> mongoManipulator" where
  "update_transaction tid f s =
     (case transactions s tid of
        None \<Rightarrow> s
      | Some t \<Rightarrow> s\<lparr>transactions := (transactions s)(tid \<mapsto> f t)\<rparr>)"

text \<open>
  \<^verbatim>\<open>bulk.Insert\<close>, \<^verbatim>\<open>bulk.Update\<close>, \<^verbatim>\<open>bulk.Remove\<close> on the batch of identity \<open>i\<close> of the
  transaction registered under \<open>tid\<close>: the operation goes to the end of that batch.
\<close>

fun bulk_append :: "Identity \<Rightarrow> op \<Rightarrow> (Identity \<times> op list) list \<Rightarrow> (Identity \<times> op list) list" where
  "bulk_append i x [] = []"
| "bulk_append i x ((j, b) # bs) = (if j = i then (j, b @ [x]) # bs else (j, b) # bulk_append i x bs)"

definition stage :: "TransactionID \<Rightarrow> Identity \<Rightarrow> op \<Rightarrow> mongoManipulator \<Rightarrow> mongoManipulator" where
  "stage tid i x s = update_transaction tid (\<lambda>t. t\<lparr>bulks := bulk_append i x (bulks t)\<rparr>) s"

text \<open>The batch of identity \<open>i\<close> staged under \<open>tid\<close>, if there is one.\<close>

definition staged :: "mongoManipulator \<Rightarrow> TransactionID \<Rightarrow> Identity \<Rightarrow> op list option" where
  "staged s tid i = (case transactions s tid of None \<Rightarrow> None | Some t \<Rightarrow> map_of (bulks t) i)"

subsection \<open>Count and RetrieveMany\<close>

definition Count :: "'f env \<Rightarrow> mongoManipulator \<Rightarrow> 'f Context option \<Rightarrow> Identity
    \<Rightarrow> mongoManipulator \<times> go_int \<times> outcome" where
  "Count E s context ident =
     (let context = context_or_new context;
          (sess, s) = session_copy s;
          flt = compiled_filter E context;
          r = db_count E (io s) ident flt;
          s = s\<lparr>io := io s @ [EvCount ident flt]\<rparr>
      in case r of
           Inl err \<Rightarrow> (session_close sess s, 0, Err (ErrCannotExecuteQuery err))
         | Inr c \<Rightarrow> (session_close sess s, c, Ok))"

text \<open>
  The window of a reverse page (the \<^verbatim>\<open>else\<close> branch of RetrieveMany, from
  \<^verbatim>\<open>page := -context.Page\<close> to \<^verbatim>\<open>limit = balance\<close>), for the count \<open>n\<close>,
  \<^verbatim>\<open>context.Page\<close> = \<open>P\<close> and \<^verbatim>\<open>context.PageSize\<close> = \<open>S\<close>:
  a panic of the division, no window at all (the early \<^verbatim>\<open>return nil\<close>), or skip and limit.
\<close>

datatype window = DivideByZero | NoResults | Window go_int go_int

definition reverse_window :: "go_int \<Rightarrow> go_int \<Rightarrow> go_int \<Rightarrow> window" where
  "reverse_window n P S =
     (let page = - P;
          skip = n - page * S;
          limit = S
      in if skip <s 0 then
           (case (go_quo n S, go_rem n S) of
              (Some maxPage, Some balance) \<Rightarrow>
                (let maxPage = (if balance \<noteq> 0 then maxPage + 1 else maxPage)
                 in if maxPage <s page then NoResults else Window 0 balance)
            | _ \<Rightarrow> DivideByZero)
         else Window skip limit)"

text \<open>\<^verbatim>\<open>query.All(dest)\<close>, with the skip and limit set on the query, if any.\<close>

definition query_All :: "'f env \<Rightarrow> mongoManipulator \<Rightarrow> Identity \<Rightarrow> bsonM \<Rightarrow> (go_int \<times> go_int) option
    \<Rightarrow> ContentIdentifiable \<Rightarrow> mongoManipulator \<times> ContentIdentifiable \<times> string option" where
  "query_All E s i flt w dest =
     (let r = db_all E (io s) i flt w;
          s = s\<lparr>io := io s @ [EvAll i flt w]\<rparr>
      in case r of
           Inl err \<Rightarrow> (s, dest, Some err)
         | Inr docs \<Rightarrow> (s, dest\<lparr>List := docs\<rparr>, None))"

text \<open>The end of RetrieveMany, from \<^verbatim>\<open>if err != nil\<close> on, and the deferred close.\<close>

definition finish_many :: "nat \<Rightarrow> mongoManipulator \<times> ContentIdentifiable \<times> string option
    \<Rightarrow> mongoManipulator \<times> ContentIdentifiable \<times> outcome" where
  "finish_many sess r =
     (case r of
        (s, dest, Some err) \<Rightarrow> (session_close sess s, dest, Err (ErrCannotExecuteQuery err))
      | (s, dest, None) \<Rightarrow> (session_close sess s, dest\<lparr>List := map backport (List dest)\<rparr>, Ok))"

definition RetrieveMany :: "'f env \<Rightarrow> mongoManipulator \<Rightarrow> 'f Context option \<Rightarrow> ContentIdentifiable
    \<Rightarrow> mongoManipulator \<times> ContentIdentifiable \<times> outcome" where
  "RetrieveMany E s context dest =
     (let context = context_or_new context;
          (sess, s) = session_copy s;
          i = ContentIdentity dest;
          flt = compiled_filter E context
      in if Page context = 0 \<or> PageSize context = 0 then
           finish_many sess (query_All E s i flt None dest)
         else if 0 <s Page context then
           (let skip = (Page context - 1) * PageSize context
            in finish_many sess (query_All E s i flt (Some (skip, PageSize context)) dest))
         else
           (case Count E s (Some context) i of
              (s, n, Err err) \<Rightarrow> (session_close sess s, dest, Err err)
            | (s, n, Panic p) \<Rightarrow> (session_close sess s, dest, Panic p)
            | (s, n, Ok) \<Rightarrow>
                (case reverse_window n (Page context) (PageSize context) of
                   DivideByZero \<Rightarrow> (session_close sess s, dest, Panic ''integer divide by zero'')
                 | NoResults \<Rightarrow> (session_close sess s, dest, Ok)
                 | Window skip limit \<Rightarrow>
                     finish_many sess (query_All E s i flt (Some (skip, limit)) dest))))"

subsection \<open>Commit and Abort\<close>

text \<open>The loop of Commit over \<^verbatim>\<open>transaction.bulks\<close>: \<^verbatim>\<open>bulk.Run()\<close> on each batch in turn.\<close>

fun run_bulks :: "'f env \<Rightarrow> (Identity \<times> op list) list \<Rightarrow> mongoManipulator \<Rightarrow> mongoManipulator \<times> outcome" where
  "run_bulks E [] s = (s, Ok)"
| "run_bulks E ((i, b) # bs) s =
     (let r = db_run E (io s) i b;
          s = s\<lparr>io := io s @ [EvRun i b]\<rparr>
      in case r of
           RunOk \<Rightarrow> run_bulks E bs s
         | RunDup m \<Rightarrow> (s, Err (ErrConstraintViolation ''duplicate key.''))
         | RunErr m \<Rightarrow> (s, Err (ErrCannotCommit m)))"

definition Commit :: "'f env \<Rightarrow> mongoManipulator \<Rightarrow> TransactionID \<Rightarrow> mongoManipulator \<times> outcome" where
  "Commit E s tid =
     (case transactionWithID s tid of
        None \<Rightarrow> (s, Err (ErrTransactionNotFound ''No batch found for the given transaction.''))
      | Some transaction \<Rightarrow>
          (case run_bulks E (bulks transaction) s of
             (s, r) \<Rightarrow> (unregisterTransaction tid (closeSession transaction s), r)))"

definition Abort :: "mongoManipulator \<Rightarrow> TransactionID \<Rightarrow> mongoManipulator \<times> bool" where
  "Abort s tid =
     (case transactionWithID s tid of
        None \<Rightarrow> (s, False)
      | Some transaction \<Rightarrow> (unregisterTransaction tid (closeSession transaction s), True))"

subsection \<open>The write path\<close>

text \<open>
  \<^verbatim>\<open>retrieveTransaction\<close> returns the transaction of the call and whether its id was
  generated here; the model also returns the id the registry holds it under.
\<close>

definition retrieveTransaction :: "'f env \<Rightarrow> mongoManipulator \<Rightarrow> 'f Context
    \<Rightarrow> mongoManipulator \<times> TransactionID \<times> transaction \<times> bool" where
  "retrieveTransaction E s context =
     (let (tid, created, s) =
            (if TransactionID context = []
             then (NewTransactionID E (tid_count s), True, s\<lparr>tid_count := Suc (tid_count s)\<rparr>)
             else (TransactionID context, False, s))
      in case transactionWithID s tid of
           Some t \<Rightarrow> (s, tid, t, created)
         | None \<Rightarrow>
             (case newTransaction tid s of
                (t, s) \<Rightarrow> (registerTransaction tid t s, tid, t, created)))"

text \<open>The finalizer of the context, when there is one, on a child.\<close>

definition run_finalizer :: "(obj \<Rightarrow> obj \<times> string option) option \<Rightarrow> obj \<Rightarrow> obj \<times> string option" where
  "run_finalizer fin child = (case fin of None \<Rightarrow> (child, None) | Some f \<Rightarrow> f child)"

text \<open>
  The loop of Create over \<^verbatim>\<open>children\<close>: it returns the children as the loop leaves them
  and the error of the finalizer that stopped it, if one did.
\<close>

fun create_children :: "'f env \<Rightarrow> (obj \<Rightarrow> obj \<times> string option) option \<Rightarrow> TransactionID \<Rightarrow> Identity
    \<Rightarrow> obj list \<Rightarrow> mongoManipulator \<Rightarrow> mongoManipulator \<times> obj list \<times> string option" where
  "create_children E fin tid i [] s = (s, [], None)"
| "create_children E fin tid i (child # rest) s =
     (let child = child\<lparr>Identifier := NewObjectId E (oid_count s)\<rparr>;
          s = s\<lparr>oid_count := Suc (oid_count s)\<rparr>
      in case run_finalizer fin child of
           (child, Some err) \<Rightarrow> (s, child # rest, Some err)
         | (child, None) \<Rightarrow>
             (case create_children E fin tid i rest (stage tid i (BulkInsert child) s) of
                (s, rest, err) \<Rightarrow> (s, child # rest, err)))"

definition Create :: "'f env \<Rightarrow> mongoManipulator \<Rightarrow> 'f Context option \<Rightarrow> obj list
    \<Rightarrow> mongoManipulator \<times> obj list \<times> outcome" where
  "Create E s context children =
     (let context = context_or_new context
      in case retrieveTransaction E s context of
           (s, tid, transaction, commit) \<Rightarrow>
             (case children of
                [] \<Rightarrow> (s, children, Panic ''index out of range'')
              | first # _ \<Rightarrow>
                  (let i = identity first;
                       s = update_transaction tid (bulkForIdentity i) s
                   in case create_children E (CreateFinalizer context) tid i children s of
                        (s, children, Some err) \<Rightarrow> (s, children, Err (ErrCallback err))
                      | (s, children, None) \<Rightarrow>
                          if commit
                          then (case Commit E s (id transaction) of (s, r) \<Rightarrow> (s, children, r))
                          else (s, children, Ok))))"

fun update_objects :: "TransactionID \<Rightarrow> Identity \<Rightarrow> obj list \<Rightarrow> mongoManipulator \<Rightarrow> mongoManipulator" where
  "update_objects tid i [] s = s"
| "update_objects tid i (ob # rest) s =
     update_objects tid i rest (stage tid i (BulkUpdate [''_id'' \<mapsto> BString (Identifier ob)] ob) s)"

definition Update :: "'f env \<Rightarrow> mongoManipulator \<Rightarrow> 'f Context option \<Rightarrow> obj list
    \<Rightarrow> mongoManipulator \<times> obj list \<times> outcome" where
  "Update E s context objects =
     (case objects of
        [] \<Rightarrow> (s, objects, Ok)
      | first # _ \<Rightarrow>
          (let context = context_or_new context
           in case retrieveTransaction E s context of
                (s, tid, transaction, commit) \<Rightarrow>
                  (let i = identity first;
                       s = update_transaction tid (bulkForIdentity i) s;
                       s = update_objects tid i objects s
                   in if commit
                      then (case Commit E s (id transaction) of (s, r) \<Rightarrow> (s, objects, r))
                      else (s, objects, Ok))))"

text \<open>The loop of Delete: a removal is staged for the object, then the object is backported.\<close>

fun delete_objects :: "TransactionID \<Rightarrow> Identity \<Rightarrow> obj list \<Rightarrow> mongoManipulator
    \<Rightarrow> mongoManipulator \<times> obj list" where
  "delete_objects tid i [] s = (s, [])"
| "delete_objects tid i (ob # rest) s =
     (let s = stage tid i (BulkRemove [''_id'' \<mapsto> BString (Identifier ob)]) s;
          ob = backport ob
      in case delete_objects tid i rest s of (s, rest) \<Rightarrow> (s, ob # rest))"

definition Delete :: "'f env \<Rightarrow> mongoManipulator \<Rightarrow> 'f Context option \<Rightarrow> obj list
    \<Rightarrow> mongoManipulator \<times> obj list \<times> outcome" where
  "Delete E s context objects =
     (case objects of
        [] \<Rightarrow> (s, objects, Ok)
      | first # _ \<Rightarrow>
          (let context = context_or_new context
           in case retrieveTransaction E s context of
                (s, tid, transaction, commit) \<Rightarrow>
                  (let i = identity first;
                       s = update_transaction tid (bulkForIdentity i) s
                   in case delete_objects tid i objects s of
                        (s, objects) \<Rightarrow>
                          if commit
                          then (case Commit E s (id transaction) of (s, r) \<Rightarrow> (s, objects, r))
                          else (s, objects, Ok))))"

subsection \<open>Retrieve\<close>

text \<open>
  The loop of Retrieve. \<^verbatim>\<open>filter["_id"] = o.Identifier()\<close> writes into the one filter
  map of the call; \<^verbatim>\<open>One(o)\<close> fills the object in place when it finds a record.
\<close>

fun retrieve_objects :: "'f env \<Rightarrow> Identity \<Rightarrow> bsonM \<Rightarrow> obj list \<Rightarrow> mongoManipulator
    \<Rightarrow> mongoManipulator \<times> obj list \<times> outcome" where
  "retrieve_objects E i flt [] s = (s, [], Ok)"
| "retrieve_objects E i flt (ob # rest) s =
     (let flt = flt(''_id'' \<mapsto> BString (Identifier ob));
          r = db_one E (io s) i flt ob;
          s = s\<lparr>io := io s @ [EvOne i flt]\<rparr>
      in case r of
           OneNotFound \<Rightarrow>
             (s, ob # rest, Err (ErrObjectNotFound ''cannot find the object for the given ID''))
         | OneErr err \<Rightarrow> (s, ob # rest, Err (ErrCannotExecuteQuery err))
         | OneFound ob \<Rightarrow>
             (case retrieve_objects E i flt rest s of
                (s, rest, r) \<Rightarrow> (s, backport ob # rest, r)))"

definition Retrieve :: "'f env \<Rightarrow> mongoManipulator \<Rightarrow> 'f Context option \<Rightarrow> obj list
    \<Rightarrow> mongoManipulator \<times> obj list \<times> outcome" where
  "Retrieve E s context objects =
     (case objects of
        [] \<Rightarrow> (s, objects, Ok)
      | first # _ \<Rightarrow>
          (let context = context_or_new context;
               (sess, s) = session_copy s;
               flt = compiled_filter E context
           in case retrieve_objects E (identity first) flt objects s of
                (s, objects, r) \<Rightarrow> (session_close sess s, objects, r)))"

subsection \<open>Notions the properties are stated with\<close>

text \<open>The round trip of running one batch.\<close>

definition run_event :: "Identity \<times> op list \<Rightarrow> event" where
  "run_event ib = EvRun (fst ib) (snd ib)"

text \<open>The round trip of looking one object up by its identifier, under the filter of the call.\<close>

definition lookup_event :: "Identity \<Rightarrow> bsonM \<Rightarrow> obj \<Rightarrow> event" where
  "lookup_event i flt ob = EvOne i (flt(''_id'' \<mapsto> BString (Identifier ob)))"

text \<open>Staging a list of operations, one after the other.\<close>

fun stage_all :: "TransactionID \<Rightarrow> Identity \<Rightarrow> op list \<Rightarrow> mongoManipulator \<Rightarrow> mongoManipulator" where
  "stage_all tid i [] s = s"
| "stage_all tid i (x # xs) s = stage_all tid i xs (stage tid i x s)"

text \<open>The removal that Delete stages for an object.\<close>

definition remove_by_id :: "obj \<Rightarrow> op" where
  "remove_by_id ob = BulkRemove [''_id'' \<mapsto> BString (Identifier ob)]"

text \<open>The id of the transaction of a call: the one of the context, or the next one generated.\<close>

definition call_tid :: "'f env \<Rightarrow> mongoManipulator \<Rightarrow> 'f Context \<Rightarrow> TransactionID" where
  "call_tid E s c = (if TransactionID c = [] then NewTransactionID E (tid_count s) else TransactionID c)"

text \<open>The operations of a batch, none when there is no such batch.\<close>

definition staged_ops :: "mongoManipulator \<Rightarrow> TransactionID \<Rightarrow> Identity \<Rightarrow> op list" where
  "staged_ops s tid i = (case staged s tid i of None \<Rightarrow> [] | Some b \<Rightarrow> b)"

text \<open>What Commit returns for a transaction of one batch, by the answer of the database.\<close>

definition run_outcome :: "run_result \<Rightarrow> outcome" where
  "run_outcome r =
     (case r of
        RunOk \<Rightarrow> Ok
      | RunDup m \<Rightarrow> Err (ErrConstraintViolation ''duplicate key.'')
      | RunErr m \<Rightarrow> Err (ErrCannotCommit m))"

text \<open>The error of Commit for an id the registry does not hold.\<close>

definition not_found :: outcome where
  "not_found = Err (ErrTransactionNotFound ''No batch found for the given transaction.'')"

text \<open>
  The children as \<^verbatim>\<open>SetIdentifier(bson.NewObjectId().Hex())\<close> leaves them, one identifier
  drawn per child, when \<open>n\<close> identifiers have been drawn before.
\<close>

fun new_identifiers :: "'f env \<Rightarrow> nat \<Rightarrow> obj list \<Rightarrow> obj list" where
  "new_identifiers E n [] = []"
| "new_identifiers E n (child # rest) =
     child\<lparr>Identifier := NewObjectId E n\<rparr> # new_identifiers E (Suc n) rest"

text \<open>The child as the finalizer of the context, when there is one, leaves it.\<close>

definition finalized :: "(obj \<Rightarrow> obj \<times> string option) option \<Rightarrow> obj \<Rightarrow> obj" where
  "finalized fin child = fst (run_finalizer fin child)"

subsection \<open>Instances: a database that always answers, two users, an open transaction\<close>

text \<open>
  \<open>example_env n r\<close> counts \<open>n\<close> records whatever is asked, returns no record to a query
  for many, finds any single object as it is, and answers \<open>r\<close> to every batch.
\<close>

definition example_env :: "go_int \<Rightarrow> run_result \<Rightarrow> unit env" where
  "example_env n r =
     \<lparr>CompileFilter = (\<lambda>_. Map.empty),
      NewObjectId = (\<lambda>k. replicate (Suc k) CHR ''a''),
      NewTransactionID = (\<lambda>k. replicate (Suc k) CHR ''t''),
      db_count = (\<lambda>_ _ _. Inr n),
      db_all = (\<lambda>_ _ _ _. Inr []),
      db_one = (\<lambda>_ _ _ ob. OneFound ob),
      db_run = (\<lambda>_ _ _. r)\<rparr>"

text \<open>A manipulator that has done nothing yet.\<close>

definition new_manipulator :: mongoManipulator where
  "new_manipulator =
     \<lparr>transactions = Map.empty, open_sessions = {}, next_session = 0, io = [], reg_log = [],
      oid_count = 0, tid_count = 0\<rparr>"

text \<open>The context of a request for page \<open>P\<close> with pages of size \<open>S\<close>.\<close>

definition paged :: "go_int \<Rightarrow> go_int \<Rightarrow> unit Context" where
  "paged P S = NewContext\<lparr>Page := P, PageSize := S\<rparr>"

text \<open>Two identities, an empty destination for users, and two users.\<close>

definition users :: Identity where
  "users = \<lparr>Name = ''user'', Category = ''users''\<rparr>"

definition groups :: Identity where
  "groups = \<lparr>Name = ''group'', Category = ''groups''\<rparr>"

definition no_users :: ContentIdentifiable where
  "no_users = \<lparr>ContentIdentity = users, List = []\<rparr>"

definition alice :: obj where
  "alice = \<lparr>identity = users, Identifier = ''a1'',
            attributes = [(''name'', BString ''Alice''), (''role'', BString [])],
            defaults = Some [(''role'', BString ''member'')]\<rparr>"

definition bob :: obj where
  "bob = \<lparr>identity = users, Identifier = ''b2'',
          attributes = [(''name'', BString ''Bob''), (''role'', BString ''admin'')],
          defaults = Some [(''role'', BString ''member'')]\<rparr>"

text \<open>A manipulator with one open transaction \<open>''tx''\<close> that holds two batches.\<close>

definition open_manipulator :: mongoManipulator where
  "open_manipulator =
     new_manipulator
       \<lparr>transactions := [''tx'' \<mapsto> \<lparr>id = ''tx'', session = 0,
                            bulks = [(users, [BulkInsert alice]), (groups, [BulkRemoveAll Map.empty])]\<rparr>],
        open_sessions := {0}, next_session := 1, reg_log := [Registered ''tx'']\<rparr>"

text \<open>A database that refuses every batch of groups and accepts every other.\<close>

definition groups_failing_env :: "unit env" where
  "groups_failing_env =
     (example_env 10 RunOk)\<lparr>db_run := (\<lambda>h i b. if i = groups then RunErr ''write failed'' else RunOk)\<rparr>"

text \<open>A database that finds every object as it is, except Bob, whom it does not find.\<close>

definition bob_missing_env :: "unit env" where
  "bob_missing_env =
     (example_env 10 RunOk)\<lparr>db_one := (\<lambda>h i f ob. if Identifier ob = ''b2'' then OneNotFound else OneFound ob)\<rparr>"

text \<open>A finalizer that rejects Bob and lets every other object through unchanged.\<close>

definition reject_bob :: "obj \<Rightarrow> obj \<times> string option" where
  "reject_bob ob =
     (if map_of (attributes ob) ''name'' = Some (BString ''Bob'') then (ob, Some ''rejected'')
      else (ob, None))"

text \<open>Contexts of the open transaction \<open>''tx''\<close> and of no transaction, with that finalizer.\<close>

definition tx_rejecting_bob :: "unit Context" where
  "tx_rejecting_bob = NewContext\<lparr>TransactionID := ''tx'', CreateFinalizer := Some reject_bob\<rparr>"

definition rejecting_bob :: "unit Context" where
  "rejecting_bob = NewContext\<lparr>CreateFinalizer := Some reject_bob\<rparr>"

section \<open>Properties\<close>

subsection \<open>Arithmetic of Go's \<^verbatim>\<open>int\<close>\<close>

lemma sint_word_of_int_range:
  "- (2 ^ 63) \<le> k \<Longrightarrow> k < 2 ^ 63 \<Longrightarrow> sint (word_of_int k :: go_int) = k"
  by (simp add: sint_sbintrunc' signed_take_bit_int_eq_self)

lemma go_quo_nonneg:
  assumes "0 \<le> sint n" "0 < sint S"
  shows "\<exists>q. go_quo n S = Some q \<and> sint q = sint n div sint S"
proof -
  have S0: "S \<noteq> 0" using assms(2) by auto
  have e: "sint n sdiv sint S = sint n div sint S"
    using assms by (simp add: signed_divide_int_def sgn_if)
  have "0 \<le> sint n div sint S" using assms by (simp add: pos_imp_zdiv_nonneg_iff)
  moreover have "sint n div sint S \<le> sint n"
    using zdiv_mono2 [of "sint n" 1 "sint S"] assms by simp
  moreover have "sint n < 2 ^ 63" using sint_lt [of n] by simp
  ultimately have "sint (word_of_int (sint n div sint S) :: go_int) = sint n div sint S"
    by (intro sint_word_of_int_range) auto
  then show ?thesis using S0 e by (simp add: go_quo_def)
qed

lemma go_rem_nonneg:
  assumes "0 \<le> sint n" "0 < sint S"
  shows "\<exists>r. go_rem n S = Some r \<and> sint r = sint n mod sint S"
proof -
  have S0: "S \<noteq> 0" using assms(2) by auto
  have e: "sint n smod sint S = sint n mod sint S"
    using assms by (simp add: signed_modulo_int_def sgn_if)
  have "0 \<le> sint n mod sint S" using assms by simp
  moreover have "sint n mod sint S < sint S" using assms by simp
  moreover have "sint S < 2 ^ 63" using sint_lt [of S] by simp
  ultimately have "sint (word_of_int (sint n mod sint S) :: go_int) = sint n mod sint S"
    by (intro sint_word_of_int_range) auto
  then show ?thesis using S0 e by (simp add: go_rem_def)
qed

lemma ceiling_div_pos:
  assumes "0 < (S::int)"
  shows "\<lceil>real_of_int n / real_of_int S\<rceil> = n div S + (if n mod S = 0 then 0 else 1)"
proof -
  have "\<lceil>real_of_int n / real_of_int S\<rceil> = - (- n div S)" by (rule ceiling_divide_eq_div)
  also have "\<dots> = n div S + (if n mod S = 0 then 0 else 1)"
    using assms by (simp add: zdiv_zminus1_eq_if)
  finally show ?thesis .
qed

lemma sint_succ_quo:
  assumes "0 \<le> sint (n::go_int)" "0 < sint (S::go_int)" "sint (q::go_int) = sint n div sint S" "sint n mod sint S \<noteq> 0"
  shows "sint (q + 1) = sint q + 1"
proof -
  have "sint S \<noteq> 1" using assms(4) by auto
  then have "2 \<le> sint S" using assms(2) by simp
  then have "sint n div sint S \<le> sint n div 2"
    using zdiv_mono2 [of "sint n" 2 "sint S"] assms by simp
  moreover have "sint n < 2 ^ 63" using sint_lt [of n] by simp
  ultimately have "sint q + 1 < 2 ^ 63" using assms(3) by simp
  moreover have "0 \<le> sint q" using assms by (simp add: pos_imp_zdiv_nonneg_iff)
  ultimately have "sint (word_of_int (sint q + 1) :: go_int) = sint q + 1"
    by (intro sint_word_of_int_range) auto
  then show ?thesis by (simp add: scast_id)
qed

lemma reverse_window_cases:
  assumes n: "0 \<le>s n" and S: "0 <s S"
  shows "\<not> (n - (- P) * S) <s 0 \<Longrightarrow> reverse_window n P S = Window (n - (- P) * S) S"
    and "(n - (- P) * S) <s 0 \<Longrightarrow> \<lceil>real_of_int (sint n) / real_of_int (sint S)\<rceil> < sint (- P)
           \<Longrightarrow> reverse_window n P S = NoResults"
    and "(n - (- P) * S) <s 0 \<Longrightarrow> sint (- P) \<le> \<lceil>real_of_int (sint n) / real_of_int (sint S)\<rceil>
           \<Longrightarrow> \<exists>limit. reverse_window n P S = Window 0 limit \<and> sint limit = sint n mod sint S"
proof -
  have n': "0 \<le> sint n" and S': "0 < sint S"
    using n S by (simp_all add: word_sle_eq word_sless_alt)
  obtain q where q: "go_quo n S = Some q" "sint q = sint n div sint S"
    using go_quo_nonneg [OF n' S'] by blast
  obtain r where r: "go_rem n S = Some r" "sint r = sint n mod sint S"
    using go_rem_nonneg [OF n' S'] by blast
  have r0: "r = 0 \<longleftrightarrow> sint n mod sint S = 0"
    using r(2) signed_eq_0_iff [of r, where ?'a = int] by simp
  have mp: "sint (if r \<noteq> 0 then q + 1 else q) = \<lceil>real_of_int (sint n) / real_of_int (sint S)\<rceil>"
    using sint_succ_quo [OF n' S' q(2)] r0 q(2) by (simp add: ceiling_div_pos [OF S'] del: of_int_sint)
  show "\<not> (n - (- P) * S) <s 0 \<Longrightarrow> reverse_window n P S = Window (n - (- P) * S) S"
    by (simp add: reverse_window_def)
  show "(n - (- P) * S) <s 0 \<Longrightarrow> \<lceil>real_of_int (sint n) / real_of_int (sint S)\<rceil> < sint (- P)
           \<Longrightarrow> reverse_window n P S = NoResults"
    using mp by (simp add: reverse_window_def q r word_sless_alt Let_def del: of_int_sint)
  show "(n - (- P) * S) <s 0 \<Longrightarrow> sint (- P) \<le> \<lceil>real_of_int (sint n) / real_of_int (sint S)\<rceil>
           \<Longrightarrow> \<exists>limit. reverse_window n P S = Window 0 limit \<and> sint limit = sint n mod sint S"
    using mp r(2) by (simp add: reverse_window_def q r(1) word_sless_alt Let_def del: of_int_sint)
qed

lemma sint_neg_exact: "- (2 ^ 63) < sint (P::go_int) \<Longrightarrow> sint (- P) = - sint P"
proof -
  assume a: "- (2 ^ 63) < sint P"
  have "sint P < 2 ^ 63" using sint_lt [of P] by simp
  then have "sint (word_of_int (- sint P) :: go_int) = - sint P"
    using a by (intro sint_word_of_int_range) auto
  then show ?thesis by simp
qed

lemma sint_skip_exact:
  assumes "0 \<le> sint (n::go_int)" "- (2 ^ 63) \<le> sint n + sint (P::go_int) * sint (S::go_int)"
    "sint P * sint S \<le> 0"
  shows "sint (n - (- P) * S) = sint n + sint P * sint S"
proof -
  have "sint n < 2 ^ 63" using sint_lt [of n] by simp
  then have "sint (word_of_int (sint n + sint P * sint S) :: go_int) = sint n + sint P * sint S"
    using assms by (intro sint_word_of_int_range) auto
  then show ?thesis by simp
qed

subsection \<open>Reverse pages of RetrieveMany\<close>

lemmas RetrieveMany_defs =
  RetrieveMany_def Count_def query_All_def finish_many_def session_copy_def session_close_def
  context_or_new_def

lemma RetrieveMany_reverse:
  assumes "Page c <s 0 \<or> (\<not> 0 <s Page c \<and> Page c \<noteq> 0)" "PageSize c \<noteq> 0"
    and "db_count E (io s) (ContentIdentity dest) (compiled_filter E c) = Inr n"
    and "RetrieveMany E s (Some c) dest = (s', dest', r)"
  shows "reverse_window n (Page c) (PageSize c) = Window skip limit \<Longrightarrow>
           io s' = io s @ [EvCount (ContentIdentity dest) (compiled_filter E c),
                           EvAll (ContentIdentity dest) (compiled_filter E c) (Some (skip, limit))]"
    and "reverse_window n (Page c) (PageSize c) = NoResults \<Longrightarrow>
           io s' = io s @ [EvCount (ContentIdentity dest) (compiled_filter E c)] \<and> dest' = dest \<and> r = Ok"
proof -
  have P: "Page c \<noteq> 0" "\<not> 0 <s Page c"
    using assms(1) by (auto simp: word_sless_alt)
  show "reverse_window n (Page c) (PageSize c) = Window skip limit \<Longrightarrow>
           io s' = io s @ [EvCount (ContentIdentity dest) (compiled_filter E c),
                           EvAll (ContentIdentity dest) (compiled_filter E c) (Some (skip, limit))]"
    using assms(2-) P by (auto simp: RetrieveMany_defs Let_def split: sum.splits)
  show "reverse_window n (Page c) (PageSize c) = NoResults \<Longrightarrow>
           io s' = io s @ [EvCount (ContentIdentity dest) (compiled_filter E c)] \<and> dest' = dest \<and> r = Ok"
    using assms(2-) P by (auto simp: RetrieveMany_defs Let_def split: sum.splits)
qed

text \<open>
  C1. A RetrieveMany call with a requested page \<open>P < 0\<close> and a page size \<open>S > 0\<close>, over a
  result set that the count reports as \<open>N\<close>, computes \<open>page = -P\<close> and
  \<open>skip = N - page * S\<close> in Go's \<^verbatim>\<open>int\<close>. If \<open>skip \<ge> 0\<close> it fetches with that skip and
  limit \<open>S\<close>. If \<open>skip < 0\<close> and \<open>page\<close> exceeds \<open>ceil(N/S)\<close> it returns \<^verbatim>\<open>nil\<close> with the
  destination untouched and no fetch sent: the count is the only round trip. Otherwise it
  fetches with skip 0 and limit \<open>N mod S\<close>. Unless \<open>P\<close> is the least \<^verbatim>\<open>int\<close>, \<open>page\<close> is
  the integer \<open>-P\<close>, and whenever the integer \<open>N + P * S\<close> fits an \<^verbatim>\<open>int\<close> it is \<open>skip\<close>.
  With \<open>N = 10\<close>, \<open>S = 3\<close>, \<open>P = -4\<close> the window is skip 0, limit 1; with \<open>N = 9\<close>,
  \<open>S = 3\<close>, \<open>P = -3\<close> it is skip 0, limit 3, and skip is not negative there.
\<close>

theorem RetrieveMany_reverse_page:
  assumes P: "Page c <s 0" and S: "0 <s PageSize c"
    and cnt: "db_count E (io s) (ContentIdentity dest) (compiled_filter E c) = Inr n"
    and n: "0 \<le>s n"
    and run: "RetrieveMany E s (Some c) dest = (s', dest', r)"
    and page: "page = - Page c" and skip: "skip = n - page * PageSize c"
  shows "(\<not> skip <s 0 \<longrightarrow>
            io s' = io s @ [EvCount (ContentIdentity dest) (compiled_filter E c),
                            EvAll (ContentIdentity dest) (compiled_filter E c) (Some (skip, PageSize c))])
       \<and> (skip <s 0 \<and> \<lceil>real_of_int (sint n) / real_of_int (sint (PageSize c))\<rceil> < sint page \<longrightarrow>
            io s' = io s @ [EvCount (ContentIdentity dest) (compiled_filter E c)] \<and> dest' = dest \<and> r = Ok)
       \<and> (skip <s 0 \<and> sint page \<le> \<lceil>real_of_int (sint n) / real_of_int (sint (PageSize c))\<rceil> \<longrightarrow>
            (\<exists>limit. sint limit = sint n mod sint (PageSize c) \<and>
               io s' = io s @ [EvCount (ContentIdentity dest) (compiled_filter E c),
                               EvAll (ContentIdentity dest) (compiled_filter E c) (Some (0, limit))]))
       \<and> (- (2 ^ 63) < sint (Page c) \<longrightarrow> sint page = - sint (Page c))
       \<and> (- (2 ^ 63) \<le> sint n + sint (Page c) * sint (PageSize c) \<longrightarrow>
            sint skip = sint n + sint (Page c) * sint (PageSize c))
       \<and> reverse_window 10 (- 4) 3 = Window 0 1
       \<and> reverse_window 9 (- 3) 3 = Window 0 3 \<and> \<not> (9 - (- (- 3)) * 3 :: go_int) <s 0"
proof -
  have S0: "PageSize c \<noteq> 0" using S by auto
  note rw = RetrieveMany_reverse [OF disjI1 [OF P] S0 cnt run]
  note cases = reverse_window_cases [OF n S, of "Page c"]
  have n': "0 \<le> sint n" using n by (simp add: word_sle_eq)
  have PS: "sint (Page c) * sint (PageSize c) \<le> 0"
    using P S by (simp add: word_sless_alt mult_le_0_iff)
  have a: "\<not> skip <s 0 \<longrightarrow>
            io s' = io s @ [EvCount (ContentIdentity dest) (compiled_filter E c),
                            EvAll (ContentIdentity dest) (compiled_filter E c) (Some (skip, PageSize c))]"
    using rw(1) cases(1) by (simp add: page skip)
  have b: "skip <s 0 \<and> \<lceil>real_of_int (sint n) / real_of_int (sint (PageSize c))\<rceil> < sint page \<longrightarrow>
            io s' = io s @ [EvCount (ContentIdentity dest) (compiled_filter E c)] \<and> dest' = dest \<and> r = Ok"
    using rw(2) cases(2) by (simp add: page skip del: of_int_sint)
  have c: "skip <s 0 \<and> sint page \<le> \<lceil>real_of_int (sint n) / real_of_int (sint (PageSize c))\<rceil> \<longrightarrow>
            (\<exists>limit. sint limit = sint n mod sint (PageSize c) \<and>
               io s' = io s @ [EvCount (ContentIdentity dest) (compiled_filter E c),
                               EvAll (ContentIdentity dest) (compiled_filter E c) (Some (0, limit))])"
    using rw(1) cases(3) unfolding page skip by blast
  have d: "- (2 ^ 63) < sint (Page c) \<longrightarrow> sint page = - sint (Page c)"
    by (simp add: page sint_neg_exact)
  have e: "- (2 ^ 63) \<le> sint n + sint (Page c) * sint (PageSize c) \<longrightarrow>
            sint skip = sint n + sint (Page c) * sint (PageSize c)"
    using sint_skip_exact [OF n' _ PS] by (simp add: page skip)
  have f: "reverse_window 10 (- 4) 3 = Window 0 1"
    by (simp add: reverse_window_def go_quo_def go_rem_def signed_divide_int_def
        signed_modulo_int_def word_sless_alt)
  have g: "reverse_window 9 (- 3) 3 = Window 0 3 \<and> \<not> (9 - (- (- 3)) * 3 :: go_int) <s 0"
    by (simp add: reverse_window_def go_quo_def go_rem_def signed_divide_int_def
        signed_modulo_int_def word_sless_alt)
  show ?thesis using a b c d e f g by blast
qed

text \<open>The theorem at \<open>N = 10\<close>, \<open>S = 3\<close>, \<open>P = -4\<close>: one count, then a fetch of one record.\<close>

theorem RetrieveMany_reverse_page_witness:
  "Page (paged (- 4) 3) <s 0 \<and> 0 <s PageSize (paged (- 4) 3)
   \<and> db_count (example_env 10 RunOk) (io new_manipulator) (ContentIdentity no_users)
         (compiled_filter (example_env 10 RunOk) (paged (- 4) 3)) = Inr 10
   \<and> (0::go_int) \<le>s 10
   \<and> (\<exists>limit. sint limit = 1 \<and>
         io (fst (RetrieveMany (example_env 10 RunOk) new_manipulator (Some (paged (- 4) 3)) no_users))
           = [EvCount users Map.empty, EvAll users Map.empty (Some (0, limit))])"
proof -
  let ?E = "example_env 10 RunOk" and ?c = "paged (- 4) 3"
  have P: "Page ?c <s 0" and S: "0 <s PageSize ?c"
    by (simp_all add: paged_def word_sless_alt)
  have cnt: "db_count ?E (io new_manipulator) (ContentIdentity no_users) (compiled_filter ?E ?c) = Inr 10"
    by (simp add: example_env_def)
  have n: "(0::go_int) \<le>s 10" by (simp add: word_sle_eq)
  obtain s' dest' r where run: "RetrieveMany ?E new_manipulator (Some ?c) no_users = (s', dest', r)"
    by (cases "RetrieveMany ?E new_manipulator (Some ?c) no_users") auto
  have sk: "(10 - (- Page ?c) * PageSize ?c) <s 0"
    by (simp add: paged_def word_sless_alt)
  have mp: "sint (- Page ?c) \<le> \<lceil>real_of_int (sint (10::go_int)) / real_of_int (sint (PageSize ?c))\<rceil>"
    by (simp add: paged_def)
  have fl: "compiled_filter ?E ?c = Map.empty"
    by (simp add: compiled_filter_def paged_def NewContext_def)
  from RetrieveMany_reverse_page [OF P S cnt n run refl refl] sk mp
  have "\<exists>limit. sint limit = sint (10::go_int) mod sint (PageSize ?c) \<and>
          io s' = io new_manipulator @ [EvCount (ContentIdentity no_users) (compiled_filter ?E ?c),
                   EvAll (ContentIdentity no_users) (compiled_filter ?E ?c) (Some (0, limit))]"
    by blast
  then have "\<exists>limit. sint limit = 1 \<and>
         io (fst (RetrieveMany ?E new_manipulator (Some ?c) no_users))
           = [EvCount users Map.empty, EvAll users Map.empty (Some (0, limit))]"
    by (simp add: run fl) (simp add: paged_def new_manipulator_def no_users_def)
  with P S cnt n show ?thesis by blast
qed

subsection \<open>The unpaginated path of RetrieveMany\<close>

lemma reverse_window_no_panic: "S \<noteq> 0 \<Longrightarrow> reverse_window n P S \<noteq> DivideByZero"
  by (simp add: reverse_window_def go_quo_def go_rem_def Let_def)

text \<open>
  C4, as the code has it. RetrieveMany sends the one unpaginated fetch exactly when
  \<open>Page = 0\<close> or \<open>PageSize = 0\<close>: a page size of 0 with a page other than 0 takes that
  path, so the window arithmetic never divides by 0 and the call never panics. A negative
  page size with a page other than 0 is neither rejected nor treated as fetch-all.
\<close>

theorem RetrieveMany_fetch_all:
  assumes run: "RetrieveMany E s (Some c) dest = (s', dest', r)"
  shows "(io s' = io s @ [EvAll (ContentIdentity dest) (compiled_filter E c) None]
            \<longleftrightarrow> Page c = 0 \<or> PageSize c = 0)
       \<and> (\<forall>p. r \<noteq> Panic p)"
proof (cases "Page c = 0 \<or> PageSize c = 0")
  case True
  then show ?thesis using run
    by (auto simp: RetrieveMany_defs Let_def split: sum.splits)
next
  case False
  then have S0: "PageSize c \<noteq> 0" and P0: "Page c \<noteq> 0" by auto
  show ?thesis
  proof (cases "0 <s Page c")
    case True
    then show ?thesis using run S0 P0
      by (auto simp: RetrieveMany_defs Let_def split: sum.splits)
  next
    case neg: False
    show ?thesis
      using run S0 P0 neg reverse_window_no_panic [OF S0]
      by (auto simp: RetrieveMany_defs Let_def split: sum.splits window.splits)
  qed
qed

text \<open>
  With \<open>Page = -1\<close> and \<open>PageSize = -3\<close>, both at most 0, over ten records, the call
  counts and then fetches with skip 13 and limit -3: it does not take the unpaginated path.
\<close>

theorem RetrieveMany_fetch_all_counterexample:
  "Page (paged (- 1) (- 3)) \<le>s 0 \<and> PageSize (paged (- 1) (- 3)) \<le>s 0
   \<and> io (fst (RetrieveMany (example_env 10 RunOk) new_manipulator (Some (paged (- 1) (- 3))) no_users))
       = [EvCount users Map.empty, EvAll users Map.empty (Some (13, - 3))]
   \<and> io (fst (RetrieveMany (example_env 10 RunOk) new_manipulator (Some (paged (- 1) (- 3))) no_users))
       \<noteq> io new_manipulator @ [EvAll users Map.empty None]"
  by (simp add: RetrieveMany_defs Let_def paged_def NewContext_def example_env_def
      new_manipulator_def no_users_def compiled_filter_def reverse_window_def word_sless_alt word_sle_eq)

text \<open>The theorem at \<open>Page = -1\<close>, \<open>PageSize = 0\<close>: the one unpaginated fetch.\<close>

theorem RetrieveMany_fetch_all_witness:
  "io (fst (RetrieveMany (example_env 10 RunOk) new_manipulator (Some (paged (- 1) 0)) no_users))
     = [EvAll users Map.empty None]
   \<and> snd (snd (RetrieveMany (example_env 10 RunOk) new_manipulator (Some (paged (- 1) 0)) no_users)) = Ok"
proof -
  let ?E = "example_env 10 RunOk" and ?c = "paged (- 1) 0"
  obtain s' dest' r where run: "RetrieveMany ?E new_manipulator (Some ?c) no_users = (s', dest', r)"
    by (cases "RetrieveMany ?E new_manipulator (Some ?c) no_users") auto
  have r: "r = Ok" using run
    by (simp add: RetrieveMany_defs Let_def paged_def NewContext_def example_env_def)
  have "io s' = io new_manipulator @ [EvAll (ContentIdentity no_users) (compiled_filter ?E ?c) None]"
    using RetrieveMany_fetch_all [OF run] by (simp add: paged_def)
  then show ?thesis
    by (simp add: run r) (simp add: compiled_filter_def paged_def NewContext_def new_manipulator_def no_users_def)
qed

subsection \<open>Commit\<close>

lemma run_bulks_frame:
  "run_bulks E bs s = (s', r) \<Longrightarrow> s' = s\<lparr>io := io s'\<rparr>"
proof (induction bs arbitrary: s)
  case Nil
  then show ?case by simp
next
  case (Cons ib bs)
  obtain i b where ib: "ib = (i, b)" by (cases ib)
  show ?case
  proof (cases "db_run E (io s) i b")
    case RunOk
    with Cons.prems ib have "run_bulks E bs (s\<lparr>io := io s @ [EvRun i b]\<rparr>) = (s', r)"
      by (simp add: Let_def)
    from Cons.IH [OF this] show ?thesis by simp
  next
    case (RunDup m)
    with Cons.prems ib show ?thesis by (auto simp: Let_def)
  next
    case (RunErr m)
    with Cons.prems ib show ?thesis by (auto simp: Let_def)
  qed
qed

lemma run_bulks_first_failure:
  assumes "k \<le> length bs"
    and "\<forall>j<k. db_run E (io s @ map run_event (take j bs)) (fst (bs ! j)) (snd (bs ! j)) = RunOk"
    and "run_bulks E bs s = (s', r)"
  shows "(k = length bs \<longrightarrow> r = Ok \<and> io s' = io s @ map run_event bs)
       \<and> (k < length bs \<longrightarrow>
            (\<forall>m. db_run E (io s @ map run_event (take k bs)) (fst (bs ! k)) (snd (bs ! k)) = RunDup m
                 \<longrightarrow> r = Err (ErrConstraintViolation ''duplicate key.'')
                     \<and> io s' = io s @ map run_event (take (Suc k) bs))
          \<and> (\<forall>m. db_run E (io s @ map run_event (take k bs)) (fst (bs ! k)) (snd (bs ! k)) = RunErr m
                 \<longrightarrow> r = Err (ErrCannotCommit m)
                     \<and> io s' = io s @ map run_event (take (Suc k) bs)))"
  using assms
proof (induction bs arbitrary: s k)
  case Nil
  then show ?case by simp
next
  case (Cons ib bs)
  obtain i b where ib: "ib = (i, b)" by (cases ib)
  show ?case
  proof (cases k)
    case 0
    with Cons.prems(3) ib show ?thesis
      by (auto simp: Let_def run_event_def split: run_result.splits)
  next
    case (Suc k')
    let ?s1 = "s\<lparr>io := io s @ [EvRun i b]\<rparr>"
    from Cons.prems(2) Suc ib have ok0: "db_run E (io s) i b = RunOk" by force
    with Cons.prems(3) ib have run: "run_bulks E bs ?s1 = (s', r)" by (simp add: Let_def)
    have k': "k' \<le> length bs" using Cons.prems(1) Suc by simp
    have ok: "\<forall>j<k'. db_run E (io ?s1 @ map run_event (take j bs)) (fst (bs ! j)) (snd (bs ! j)) = RunOk"
    proof (intro allI impI)
      fix j assume "j < k'"
      then have "Suc j < k" using Suc by simp
      with Cons.prems(2)
      have "db_run E (io s @ map run_event (take (Suc j) (ib # bs)))
              (fst ((ib # bs) ! Suc j)) (snd ((ib # bs) ! Suc j)) = RunOk"
        by blast
      then show "db_run E (io ?s1 @ map run_event (take j bs)) (fst (bs ! j)) (snd (bs ! j)) = RunOk"
        using ib by (simp add: run_event_def)
    qed
    from Cons.IH [OF k' ok run] show ?thesis
      using Suc ib by (simp add: run_event_def)
  qed
qed

lemma Commit_unknown:
  "transactionWithID s tid = None \<Longrightarrow> Commit E s tid = (s, not_found)"
  by (simp add: Commit_def not_found_def)

lemma Commit_registered:
  assumes "transactionWithID s tid = Some t" "Commit E s tid = (s', r)"
  shows "\<exists>s1. run_bulks E (bulks t) s = (s1, r)
            \<and> s' = unregisterTransaction tid (closeSession t (s\<lparr>io := io s1\<rparr>))"
proof -
  obtain s1 r1 where rb: "run_bulks E (bulks t) s = (s1, r1)"
    by (cases "run_bulks E (bulks t) s") auto
  from run_bulks_frame [OF rb] have "s1 = s\<lparr>io := io s1\<rparr>" .
  with assms rb show ?thesis by (auto simp: Commit_def)
qed

text \<open>
  C2. Commit of an id that the registry does not hold returns TransactionNotFound and
  leaves the manipulator as it was: nothing is sent to the backend. Commit of a registered
  id, whatever its result, closes the session of the transaction and removes the id from
  the registry, once; the id is then unknown, so a second Commit of it returns
  TransactionNotFound and runs nothing. The same holds for an id retired by Abort.
\<close>

theorem Commit_retires:
  "(transactionWithID s tid = None \<longrightarrow> Commit E s tid = (s, not_found))
 \<and> (\<forall>t s' r. transactionWithID s tid = Some t \<and> Commit E s tid = (s', r) \<longrightarrow>
        transactionWithID s' tid = None \<and> session t \<notin> open_sessions s'
      \<and> reg_log s' = reg_log s @ [Unregistered tid]
      \<and> Commit E s' tid = (s', not_found))
 \<and> (\<forall>t s' b. transactionWithID s tid = Some t \<and> Abort s tid = (s', b) \<longrightarrow>
        b \<and> transactionWithID s' tid = None \<and> session t \<notin> open_sessions s'
      \<and> reg_log s' = reg_log s @ [Unregistered tid] \<and> io s' = io s
      \<and> Commit E s' tid = (s', not_found))"
proof (intro conjI allI impI)
  assume "transactionWithID s tid = None"
  then show "Commit E s tid = (s, not_found)" by (rule Commit_unknown)
next
  fix t s' r
  assume a: "transactionWithID s tid = Some t \<and> Commit E s tid = (s', r)"
  then have a1: "transactionWithID s tid = Some t" and a2: "Commit E s tid = (s', r)"
    by simp_all
  from Commit_registered [OF a1 a2]
  obtain s1 :: mongoManipulator
    where s': "s' = unregisterTransaction tid (closeSession t (s\<lparr>io := io s1\<rparr>))"
    by auto
  show gone: "transactionWithID s' tid = None"
    by (simp add: s' transactionWithID_def unregisterTransaction_def)
  show "session t \<notin> open_sessions s'"
    by (simp add: s' unregisterTransaction_def closeSession_def session_close_def)
  show "reg_log s' = reg_log s @ [Unregistered tid]"
    by (simp add: s' unregisterTransaction_def closeSession_def session_close_def)
  show "Commit E s' tid = (s', not_found)" using gone by (rule Commit_unknown)
next
  fix t s' b
  assume a: "transactionWithID s tid = Some t \<and> Abort s tid = (s', b)"
  then have s': "s' = unregisterTransaction tid (closeSession t s)" and b: b
    by (auto simp: Abort_def)
  show b by (rule b)
  show gone: "transactionWithID s' tid = None"
    by (simp add: s' transactionWithID_def unregisterTransaction_def)
  show "session t \<notin> open_sessions s'"
    by (simp add: s' unregisterTransaction_def closeSession_def session_close_def)
  show "reg_log s' = reg_log s @ [Unregistered tid]"
    by (simp add: s' unregisterTransaction_def closeSession_def session_close_def)
  show "io s' = io s"
    by (simp add: s' unregisterTransaction_def closeSession_def session_close_def)
  show "Commit E s' tid = (s', not_found)" using gone by (rule Commit_unknown)
qed

lemma open_manipulator_tx:
  "transactionWithID open_manipulator ''tx''
     = Some \<lparr>id = ''tx'', session = 0, bulks = [(users, [BulkInsert alice]), (groups, [BulkRemoveAll Map.empty])]\<rparr>"
  by (simp add: open_manipulator_def transactionWithID_def new_manipulator_def)

text \<open>
  The theorem on a manipulator that never saw \<open>''tx''\<close> and on one that holds it open.
\<close>

theorem Commit_retires_witness:
  "transactionWithID new_manipulator ''tx'' = None
 \<and> Commit (example_env 10 RunOk) new_manipulator ''tx'' = (new_manipulator, not_found)
 \<and> transactionWithID open_manipulator ''tx'' \<noteq> None
 \<and> 0 \<notin> open_sessions (fst (Commit (example_env 10 RunOk) open_manipulator ''tx''))
 \<and> reg_log (fst (Commit (example_env 10 RunOk) open_manipulator ''tx''))
      = [Registered ''tx'', Unregistered ''tx'']
 \<and> Commit (example_env 10 RunOk) (fst (Commit (example_env 10 RunOk) open_manipulator ''tx'')) ''tx''
      = (fst (Commit (example_env 10 RunOk) open_manipulator ''tx''), not_found)
 \<and> Commit (example_env 10 RunOk) (fst (Abort open_manipulator ''tx'')) ''tx''
      = (fst (Abort open_manipulator ''tx''), not_found)"
proof -
  let ?E = "example_env 10 RunOk"
  note thm1 = Commit_retires [of new_manipulator "''tx''" ?E]
  note thm2 = Commit_retires [of open_manipulator "''tx''" ?E]
  have n: "transactionWithID new_manipulator ''tx'' = None"
    by (simp add: transactionWithID_def new_manipulator_def)
  obtain s' r where c: "Commit ?E open_manipulator ''tx'' = (s', r)"
    by (cases "Commit ?E open_manipulator ''tx''") auto
  obtain s2 b where a: "Abort open_manipulator ''tx'' = (s2, b)"
    by (cases "Abort open_manipulator ''tx''") auto
  have rl: "reg_log open_manipulator = [Registered ''tx'']"
    by (simp add: open_manipulator_def)
  from thm1 n have 1: "Commit ?E new_manipulator ''tx'' = (new_manipulator, not_found)" by blast
  from thm2 open_manipulator_tx c
  have 2: "session \<lparr>id = ''tx'', session = 0, bulks = [(users, [BulkInsert alice]), (groups, [BulkRemoveAll Map.empty])]\<rparr>
             \<notin> open_sessions s'
         \<and> reg_log s' = reg_log open_manipulator @ [Unregistered ''tx'']
         \<and> Commit ?E s' ''tx'' = (s', not_found)"
    by blast
  from thm2 open_manipulator_tx a
  have 3: "Commit ?E s2 ''tx'' = (s2, not_found)" by blast
  show ?thesis using n 1 2 3 open_manipulator_tx by (simp add: c a rl)
qed

text \<open>
  C3. Commit of a registered transaction runs its batches in the order of \<open>bulks\<close>, which
  is the order they were created in (a new batch goes after the ones there are). When the
  first \<open>k\<close> batches succeed: if there is no further batch the result is success and all
  have run; if batch \<open>k\<close> fails with a duplicate-key error the result is
  ConstraintViolation; if it fails otherwise the result is CannotCommit with the message of
  the backend. In both failures the round trips made are those of the batches up to the
  failing one, each once: the earlier batches stay applied, nothing is undone or retried,
  and no later batch runs.
\<close>

theorem Commit_runs_in_order:
  assumes reg: "transactionWithID s tid = Some t"
    and k: "k \<le> length (bulks t)"
    and ok: "\<forall>j<k. db_run E (io s @ map run_event (take j (bulks t)))
                      (fst (bulks t ! j)) (snd (bulks t ! j)) = RunOk"
    and run: "Commit E s tid = (s', r)"
  shows "(k = length (bulks t) \<longrightarrow> r = Ok \<and> io s' = io s @ map run_event (bulks t))
       \<and> (k < length (bulks t) \<longrightarrow>
            (\<forall>m. db_run E (io s @ map run_event (take k (bulks t)))
                    (fst (bulks t ! k)) (snd (bulks t ! k)) = RunDup m
                 \<longrightarrow> r = Err (ErrConstraintViolation ''duplicate key.'')
                     \<and> io s' = io s @ map run_event (take (Suc k) (bulks t)))
          \<and> (\<forall>m. db_run E (io s @ map run_event (take k (bulks t)))
                    (fst (bulks t ! k)) (snd (bulks t ! k)) = RunErr m
                 \<longrightarrow> r = Err (ErrCannotCommit m)
                     \<and> io s' = io s @ map run_event (take (Suc k) (bulks t))))
       \<and> (\<forall>i. map_of (bulks t) i = None \<longrightarrow> bulks (bulkForIdentity i t) = bulks t @ [(i, [])])"
proof -
  from Commit_registered [OF reg run]
  obtain s1 :: mongoManipulator where rb: "run_bulks E (bulks t) s = (s1, r)"
    and s': "s' = unregisterTransaction tid (closeSession t (s\<lparr>io := io s1\<rparr>))"
    by auto
  have io: "io s' = io s1"
    by (simp add: s' unregisterTransaction_def closeSession_def session_close_def)
  have "\<forall>i. map_of (bulks t) i = None \<longrightarrow> bulks (bulkForIdentity i t) = bulks t @ [(i, [])]"
    by (simp add: bulkForIdentity_def)
  with run_bulks_first_failure [OF k ok rb] show ?thesis
    unfolding io by blast
qed

text \<open>
  The theorem on two batches, of which the database accepts the first and refuses the
  second.
\<close>

theorem Commit_runs_in_order_witness:
  "transactionWithID open_manipulator ''tx''
     = Some \<lparr>id = ''tx'', session = 0, bulks = [(users, [BulkInsert alice]), (groups, [BulkRemoveAll Map.empty])]\<rparr>
 \<and> db_run groups_failing_env [] users [BulkInsert alice] = RunOk
 \<and> db_run groups_failing_env [EvRun users [BulkInsert alice]] groups [BulkRemoveAll Map.empty] = RunErr ''write failed''
 \<and> Commit groups_failing_env open_manipulator ''tx''
      = (fst (Commit groups_failing_env open_manipulator ''tx''), Err (ErrCannotCommit ''write failed''))
 \<and> io (fst (Commit groups_failing_env open_manipulator ''tx''))
      = [EvRun users [BulkInsert alice], EvRun groups [BulkRemoveAll Map.empty]]"
proof -
  let ?t = "\<lparr>id = ''tx'', session = 0, bulks = [(users, [BulkInsert alice]), (groups, [BulkRemoveAll Map.empty])]\<rparr>"
  obtain s' r where c: "Commit groups_failing_env open_manipulator ''tx'' = (s', r)"
    by (cases "Commit groups_failing_env open_manipulator ''tx''") auto
  have ug: "users \<noteq> groups" by (simp add: users_def groups_def)
  have io0: "io open_manipulator = []" by (simp add: open_manipulator_def new_manipulator_def)
  have k: "1 \<le> length (bulks ?t)" by simp
  have ok: "\<forall>j<1. db_run groups_failing_env (io open_manipulator @ map run_event (take j (bulks ?t)))
                      (fst (bulks ?t ! j)) (snd (bulks ?t ! j)) = RunOk"
    using ug by (simp add: groups_failing_env_def)
  have f: "db_run groups_failing_env (io open_manipulator @ map run_event (take 1 (bulks ?t)))
             (fst (bulks ?t ! 1)) (snd (bulks ?t ! 1)) = RunErr ''write failed''"
    by (simp add: groups_failing_env_def)
  from Commit_runs_in_order [OF open_manipulator_tx k ok c] f
  have "r = Err (ErrCannotCommit ''write failed'')
      \<and> io s' = io open_manipulator @ map run_event (take (Suc 1) (bulks ?t))"
    by simp
  moreover have "db_run groups_failing_env [] users [BulkInsert alice] = RunOk"
    using ug by (simp add: groups_failing_env_def)
  moreover have "db_run groups_failing_env [EvRun users [BulkInsert alice]] groups [BulkRemoveAll Map.empty]
      = RunErr ''write failed''"
    by (simp add: groups_failing_env_def)
  ultimately show ?thesis
    using open_manipulator_tx by (simp add: c io0 run_event_def)
qed

subsection \<open>Staging\<close>

lemma map_of_bulk_append:
  "map_of bs i = Some b \<Longrightarrow> map_of (bulk_append i x bs) i = Some (b @ [x])"
  by (induction bs) auto

lemma stage_registered:
  "transactions s tid = Some t \<Longrightarrow>
     stage tid i x s = s\<lparr>transactions := (transactions s)(tid \<mapsto> t\<lparr>bulks := bulk_append i x (bulks t)\<rparr>)\<rparr>"
  by (simp add: stage_def update_transaction_def)

lemma stage_all_registered:
  "transactions s tid = Some t \<Longrightarrow>
     stage_all tid i xs s
       = s\<lparr>transactions := (transactions s)(tid \<mapsto> t\<lparr>bulks := foldl (\<lambda>bs x. bulk_append i x bs) (bulks t) xs\<rparr>)\<rparr>"
proof (induction xs arbitrary: s t)
  case Nil
  then have "(transactions s)(tid \<mapsto> t) = transactions s" by (rule map_upd_triv)
  then show ?case by simp
next
  case (Cons x xs)
  let ?t = "t\<lparr>bulks := bulk_append i x (bulks t)\<rparr>"
  let ?s = "s\<lparr>transactions := (transactions s)(tid \<mapsto> ?t)\<rparr>"
  have "transactions ?s tid = Some ?t" by simp
  from Cons.IH [OF this] show ?case
    by (simp add: stage_registered [OF Cons.prems] cong: if_cong)
qed

lemma map_of_foldl_bulk_append:
  "map_of bs i = Some b \<Longrightarrow> map_of (foldl (\<lambda>bs x. bulk_append i x bs) bs xs) i = Some (b @ xs)"
  by (induction xs arbitrary: bs b) (auto simp: map_of_bulk_append)

lemma foldl_bulk_append_single:
  "foldl (\<lambda>bs x. bulk_append i x bs) [(i, b)] xs = [(i, b @ xs)]"
  by (induction xs arbitrary: b) auto

lemma delete_objects_eq:
  "delete_objects tid i objects s = (stage_all tid i (map remove_by_id objects) s, map backport objects)"
  by (induction objects arbitrary: s) (auto simp: remove_by_id_def Let_def)

subsection \<open>The transaction of a call\<close>

lemma retrieveTransaction_implicit_new:
  assumes "TransactionID c = []" "transactions s (NewTransactionID E (tid_count s)) = None"
  shows "retrieveTransaction E s c
     = (s\<lparr>transactions := (transactions s)(NewTransactionID E (tid_count s) \<mapsto>
              \<lparr>id = NewTransactionID E (tid_count s), session = next_session s, bulks = []\<rparr>),
           open_sessions := insert (next_session s) (open_sessions s),
           next_session := Suc (next_session s),
           reg_log := reg_log s @ [Registered (NewTransactionID E (tid_count s))],
           tid_count := Suc (tid_count s)\<rparr>,
        NewTransactionID E (tid_count s),
        \<lparr>id = NewTransactionID E (tid_count s), session = next_session s, bulks = []\<rparr>, True)"
  using assms
  by (simp add: retrieveTransaction_def transactionWithID_def newTransaction_def session_copy_def
      registerTransaction_def)

lemma stage_all_frame:
  "io (stage_all tid i xs s) = io s"
  "reg_log (stage_all tid i xs s) = reg_log s"
  "open_sessions (stage_all tid i xs s) = open_sessions s"
  "next_session (stage_all tid i xs s) = next_session s"
  "oid_count (stage_all tid i xs s) = oid_count s"
  "tid_count (stage_all tid i xs s) = tid_count s"
  by (induction xs arbitrary: s;
      simp add: stage_def update_transaction_def split: option.splits)+

lemma staged_stage_all:
  assumes "staged s tid i = Some b"
  shows "staged (stage_all tid i xs s) tid i = Some (b @ xs)"
proof -
  from assms obtain t where t: "transactions s tid = Some t" "map_of (bulks t) i = Some b"
    by (auto simp: staged_def split: option.splits)
  show ?thesis
    by (simp add: stage_all_registered [OF t(1)] staged_def map_of_foldl_bulk_append [OF t(2)])
qed

lemma staged_bulkForIdentity:
  assumes "transactions s tid = Some t"
  shows "staged (update_transaction tid (bulkForIdentity i) s) tid i = Some (staged_ops s tid i)"
  using assms
  by (auto simp: staged_def staged_ops_def update_transaction_def bulkForIdentity_def
      map_add_def split: option.splits)

lemma update_transaction_frame:
  "io (update_transaction tid f s) = io s"
  "reg_log (update_transaction tid f s) = reg_log s"
  "open_sessions (update_transaction tid f s) = open_sessions s"
  "next_session (update_transaction tid f s) = next_session s"
  "oid_count (update_transaction tid f s) = oid_count s"
  "tid_count (update_transaction tid f s) = tid_count s"
  by (simp_all add: update_transaction_def split: option.splits)

lemma retrieveTransaction_props:
  assumes "retrieveTransaction E s c = (s1, tid, t, commit)"
  shows "tid = call_tid E s c" and "commit \<longleftrightarrow> TransactionID c = []"
    and "transactions s1 tid = Some t" and "io s1 = io s"
    and "staged_ops s1 tid i = staged_ops s tid i"
    and "oid_count s1 = oid_count s"
  using assms
  by (auto simp: retrieveTransaction_def transactionWithID_def newTransaction_def session_copy_def
      registerTransaction_def call_tid_def staged_ops_def staged_def Let_def
      split: if_splits option.splits)

lemma Commit_single:
  assumes "transactions s tid = Some t" "bulks t = [(i, xs)]"
  shows "Commit E s tid
     = (unregisterTransaction tid (closeSession t (s\<lparr>io := io s @ [EvRun i xs]\<rparr>)),
        run_outcome (db_run E (io s) i xs))"
  using assms
  by (simp add: Commit_def transactionWithID_def Let_def run_outcome_def split: run_result.splits)

subsection \<open>Delete\<close>

lemma backport_restores:
  assumes "defaults ob = Some ds" "m < length (attributes ob)" "attributes ob ! m = (k, v)"
    "is_zero v" "map_of ds k = Some d"
  shows "attributes (backport ob) ! m = (k, d)"
  using assms by (simp add: backport_def ResetDefaultForZeroValues_def reset_field_def)

lemma backport_keeps:
  assumes "defaults ob = Some ds" "m < length (attributes ob)" "attributes ob ! m = (key, v)"
    "\<not> is_zero v \<or> map_of ds key = None"
  shows "attributes (backport ob) ! m = (key, v)"
  using assms
  by (auto simp: backport_def ResetDefaultForZeroValues_def reset_field_def split: option.splits)

lemma backport_not_specifiable: "defaults ob = None \<Longrightarrow> backport ob = ob"
  by (simp add: backport_def)

lemma backport_frame:
  "identity (backport ob) = identity ob" "Identifier (backport ob) = Identifier ob"
  "defaults (backport ob) = defaults ob" "length (attributes (backport ob)) = length (attributes ob)"
  by (simp_all add: backport_def ResetDefaultForZeroValues_def split: option.splits)

lemma Delete_nonempty:
  assumes "objects = first # rest" "Delete E s context objects = (s', objects', r)"
    and "retrieveTransaction E s (context_or_new context) = (s1, tid, t, commit)"
  shows "objects' = map backport objects"
    and "\<not> commit \<Longrightarrow> r = Ok \<and> s' = stage_all tid (identity first) (map remove_by_id objects)
                                   (update_transaction tid (bulkForIdentity (identity first)) s1)"
    and "commit \<Longrightarrow> (s', r) = Commit E (stage_all tid (identity first) (map remove_by_id objects)
                                   (update_transaction tid (bulkForIdentity (identity first)) s1)) (id t)"
  using assms(2,3) unfolding assms(1)
  by (auto simp: Delete_def Let_def delete_objects_eq simp del: delete_objects.simps stage_all.simps
      split: prod.splits if_splits)

text \<open>
  C7. A Delete call on a non-empty list of objects stages one removal by identifier per
  object, in order, at the end of the batch of the first object's identity, and backports
  every object passed in: a field that holds the zero value and has a declared default
  holds that default when the call returns. With a transaction id in the context the call
  returns success, the removals stay staged and nothing is sent to the backend; with none,
  and the generated id new to the registry, the one round trip of the call runs the batch
  of these removals and nothing else.
\<close>

theorem Delete_removes_and_backports:
  assumes ne: "objects \<noteq> []"
    and run: "Delete E s context objects = (s', objects', r)"
    and c: "c = context_or_new context" and i: "i = identity (hd objects)"
  shows "objects' = map backport objects
       \<and> (\<forall>j<length objects. \<forall>ds m k v d.
             defaults (objects ! j) = Some ds \<and> m < length (attributes (objects ! j))
             \<and> attributes (objects ! j) ! m = (k, v) \<and> is_zero v \<and> map_of ds k = Some d
             \<longrightarrow> attributes (objects' ! j) ! m = (k, d))
       \<and> (TransactionID c \<noteq> [] \<longrightarrow>
             r = Ok \<and> io s' = io s
           \<and> staged s' (TransactionID c) i
               = Some (staged_ops s (TransactionID c) i @ map remove_by_id objects))
       \<and> (TransactionID c = [] \<and> transactions s (NewTransactionID E (tid_count s)) = None \<longrightarrow>
             io s' = io s @ [EvRun i (map remove_by_id objects)]
           \<and> r = run_outcome (db_run E (io s) i (map remove_by_id objects)))"
proof -
  obtain first rest where objs: "objects = first # rest" using ne by (cases objects) auto
  have i': "i = identity first" by (simp add: i objs)
  obtain s1 tid t commit where rt: "retrieveTransaction E s c = (s1, tid, t, commit)"
    by (cases "retrieveTransaction E s c") auto
  note D = Delete_nonempty [OF objs run rt [unfolded c]]
  note R = retrieveTransaction_props [OF rt]
  let ?s2 = "update_transaction tid (bulkForIdentity i) s1"
  let ?s3 = "stage_all tid i (map remove_by_id objects) ?s2"
  have 1: "objects' = map backport objects" by (rule D(1))
  have 2: "\<forall>j<length objects. \<forall>ds m k v d.
             defaults (objects ! j) = Some ds \<and> m < length (attributes (objects ! j))
             \<and> attributes (objects ! j) ! m = (k, v) \<and> is_zero v \<and> map_of ds k = Some d
             \<longrightarrow> attributes (objects' ! j) ! m = (k, d)"
    unfolding 1 by (auto intro: backport_restores)
  have 3: "TransactionID c \<noteq> [] \<longrightarrow>
             r = Ok \<and> io s' = io s
           \<and> staged s' (TransactionID c) i
               = Some (staged_ops s (TransactionID c) i @ map remove_by_id objects)"
  proof
    assume e: "TransactionID c \<noteq> []"
    then have nc: "\<not> commit" and tid: "tid = TransactionID c"
      using R(1,2) by (simp_all add: call_tid_def)
    from D(2) [OF nc] have r: "r = Ok" and s': "s' = ?s3" by (simp_all add: i')
    have "staged ?s2 tid i = Some (staged_ops s1 tid i)"
      by (rule staged_bulkForIdentity [OF R(3)])
    then have "staged ?s3 tid i = Some (staged_ops s tid i @ map remove_by_id objects)"
      by (simp add: staged_stage_all R(5))
    moreover have "io ?s3 = io s"
      by (simp add: stage_all_frame update_transaction_frame R(4))
    ultimately show "r = Ok \<and> io s' = io s
           \<and> staged s' (TransactionID c) i
               = Some (staged_ops s (TransactionID c) i @ map remove_by_id objects)"
      using r s' tid by simp
  qed
  have 4: "TransactionID c = [] \<and> transactions s (NewTransactionID E (tid_count s)) = None \<longrightarrow>
             io s' = io s @ [EvRun i (map remove_by_id objects)]
           \<and> r = run_outcome (db_run E (io s) i (map remove_by_id objects))"
  proof
    assume a: "TransactionID c = [] \<and> transactions s (NewTransactionID E (tid_count s)) = None"
    then have e: "TransactionID c = []" and f: "transactions s (NewTransactionID E (tid_count s)) = None"
      by simp_all
    from rt retrieveTransaction_implicit_new [OF e f]
    have t: "t = \<lparr>id = tid, session = next_session s, bulks = []\<rparr>" and cm: commit
      by auto
    have t2: "transactions ?s2 tid = Some (t\<lparr>bulks := [(i, [])]\<rparr>)"
      using R(3) by (simp add: update_transaction_def bulkForIdentity_def t)
    have t3: "transactions ?s3 tid = Some (t\<lparr>bulks := [(i, map remove_by_id objects)]\<rparr>)"
      by (simp add: stage_all_registered [OF t2] foldl_bulk_append_single)
    have io3: "io ?s3 = io s"
      by (simp add: stage_all_frame update_transaction_frame R(4))
    have idt: "id t = tid" by (simp add: t)
    from D(3) [OF cm] have "(s', r) = Commit E ?s3 tid" by (simp add: i' idt)
    also have "\<dots> = (unregisterTransaction tid
                        (closeSession (t\<lparr>bulks := [(i, map remove_by_id objects)]\<rparr>)
                          (?s3\<lparr>io := io ?s3 @ [EvRun i (map remove_by_id objects)]\<rparr>)),
                      run_outcome (db_run E (io ?s3) i (map remove_by_id objects)))"
      by (rule Commit_single [OF t3]) simp
    finally show "io s' = io s @ [EvRun i (map remove_by_id objects)]
           \<and> r = run_outcome (db_run E (io s) i (map remove_by_id objects))"
      by (simp add: io3 unregisterTransaction_def closeSession_def session_close_def)
  qed
  show ?thesis using 1 2 3 4 by blast
qed

text \<open>
  The theorem on Alice, whose role is empty and whose schema declares the role
  \<open>''member''\<close>, deleted in the open transaction \<open>''tx''\<close>.
\<close>

theorem Delete_removes_and_backports_witness:
  "[alice] \<noteq> []
 \<and> defaults alice = Some [(''role'', BString ''member'')]
 \<and> attributes alice ! 1 = (''role'', BString []) \<and> is_zero (BString [])
 \<and> TransactionID (NewContext\<lparr>TransactionID := ''tx''\<rparr> :: unit Context) \<noteq> []
 \<and> attributes (hd (fst (snd (Delete (example_env 10 RunOk) open_manipulator
        (Some (NewContext\<lparr>TransactionID := ''tx''\<rparr>)) [alice])))) ! 1 = (''role'', BString ''member'')
 \<and> staged (fst (Delete (example_env 10 RunOk) open_manipulator
        (Some (NewContext\<lparr>TransactionID := ''tx''\<rparr>)) [alice])) ''tx'' users
      = Some [BulkInsert alice, BulkRemove [''_id'' \<mapsto> BString ''a1'']]
 \<and> io (fst (Delete (example_env 10 RunOk) open_manipulator
        (Some (NewContext\<lparr>TransactionID := ''tx''\<rparr>)) [alice])) = []"
proof -
  let ?E = "example_env 10 RunOk" and ?c = "NewContext\<lparr>TransactionID := ''tx''\<rparr> :: unit Context"
  obtain s' objects' r where run: "Delete ?E open_manipulator (Some ?c) [alice] = (s', objects', r)"
    by (cases "Delete ?E open_manipulator (Some ?c) [alice]") auto
  have ne: "[alice] \<noteq> []" by simp
  have c: "?c = context_or_new (Some ?c)" by (simp add: context_or_new_def)
  have i: "users = identity (hd [alice])" by (simp add: alice_def)
  have d: "defaults alice = Some [(''role'', BString ''member'')]"
    and a: "attributes alice ! 1 = (''role'', BString [])" and m: "1 < length (attributes alice)"
    by (simp_all add: alice_def)
  have tx: "TransactionID ?c \<noteq> []" by simp
  have st: "staged_ops open_manipulator ''tx'' users = [BulkInsert alice]"
    by (simp add: staged_ops_def staged_def open_manipulator_def new_manipulator_def)
  have io0: "io open_manipulator = []" by (simp add: open_manipulator_def new_manipulator_def)
  note T = Delete_removes_and_backports [OF ne run c i]
  from T d a m have "attributes (objects' ! 0) ! 1 = (''role'', BString ''member'')"
    by force
  moreover from T have "objects' \<noteq> []" by simp
  ultimately have 1: "attributes (hd objects') ! 1 = (''role'', BString ''member'')"
    by (simp add: hd_conv_nth)
  from T tx have 2: "staged s' ''tx'' users = Some [BulkInsert alice, BulkRemove [''_id'' \<mapsto> BString ''a1'']]"
    and 3: "io s' = []"
    by (simp_all add: st io0 remove_by_id_def alice_def)
  show ?thesis using ne d a tx 1 2 3 by (simp add: run)
qed

subsection \<open>Empty lists of objects\<close>

text \<open>
  C9. Create on an empty list panics when it reads the first child, after it has looked
  up or created the transaction of the call. Update, Delete and Retrieve on an empty list
  return success and leave the manipulator as it was: no transaction, no staged operation,
  no round trip.
\<close>

theorem empty_object_lists:
  "Create E s context []
     = (fst (retrieveTransaction E s (context_or_new context)), [], Panic ''index out of range'')
 \<and> Update E s context [] = (s, [], Ok)
 \<and> Delete E s context [] = (s, [], Ok)
 \<and> Retrieve E s context [] = (s, [], Ok)"
  by (simp add: Create_def Update_def Delete_def Retrieve_def split: prod.splits)

subsection \<open>Retrieve\<close>

lemma retrieve_objects_length:
  "retrieve_objects E i flt objects s = (s', objects', r) \<Longrightarrow> length objects' = length objects"
proof (induction objects arbitrary: s flt objects' s' r)
  case Nil
  then show ?case by simp
next
  case (Cons ob rest)
  let ?flt = "flt(''_id'' \<mapsto> BString (Identifier ob))"
  let ?s1 = "s\<lparr>io := io s @ [EvOne i ?flt]\<rparr>"
  show ?case
  proof (cases "db_one E (io s) i ?flt ob")
    case (OneFound ob')
    obtain s2 rest' r2 where rec: "retrieve_objects E i ?flt rest ?s1 = (s2, rest', r2)"
      by (cases "retrieve_objects E i ?flt rest ?s1") auto
    from Cons.IH [OF rec] Cons.prems OneFound rec show ?thesis by (auto simp: Let_def)
  next
    case OneNotFound
    with Cons.prems show ?thesis by (auto simp: Let_def)
  next
    case (OneErr err)
    with Cons.prems show ?thesis by (auto simp: Let_def)
  qed
qed

lemma retrieve_objects_first_failure:
  assumes "k \<le> length objects"
    and "\<forall>j<k. db_one E (io s @ map (lookup_event i flt) (take j objects)) i
                  (flt(''_id'' \<mapsto> BString (Identifier (objects ! j)))) (objects ! j) = OneFound (found j)"
    and "retrieve_objects E i flt objects s = (s', objects', r)"
  shows "length objects' = length objects
       \<and> (\<forall>j<k. objects' ! j = backport (found j))
       \<and> (k = length objects \<longrightarrow> r = Ok \<and> io s' = io s @ map (lookup_event i flt) objects)
       \<and> (k < length objects \<longrightarrow>
            (db_one E (io s @ map (lookup_event i flt) (take k objects)) i
                  (flt(''_id'' \<mapsto> BString (Identifier (objects ! k)))) (objects ! k) = OneNotFound
               \<longrightarrow> r = Err (ErrObjectNotFound ''cannot find the object for the given ID'')
                   \<and> io s' = io s @ map (lookup_event i flt) (take (Suc k) objects)
                   \<and> drop k objects' = drop k objects)
          \<and> (\<forall>err. db_one E (io s @ map (lookup_event i flt) (take k objects)) i
                  (flt(''_id'' \<mapsto> BString (Identifier (objects ! k)))) (objects ! k) = OneErr err
               \<longrightarrow> r = Err (ErrCannotExecuteQuery err)
                   \<and> io s' = io s @ map (lookup_event i flt) (take (Suc k) objects)
                   \<and> drop k objects' = drop k objects))"
  using assms
proof (induction objects arbitrary: s k found flt objects' s' r)
  case Nil
  then show ?case by simp
next
  case (Cons ob rest)
  let ?flt = "flt(''_id'' \<mapsto> BString (Identifier ob))"
  let ?s1 = "s\<lparr>io := io s @ [EvOne i ?flt]\<rparr>"
  show ?case
  proof (cases k)
    case 0
    have e0: "io s @ map (lookup_event i flt) (take k (ob # rest)) = io s" "(ob # rest) ! k = ob"
      "take (Suc k) (ob # rest) = [ob]" "drop k objects' = objects'" "drop k (ob # rest) = ob # rest"
      by (simp_all add: 0)
    show ?thesis
    proof (cases "db_one E (io s) i ?flt ob")
      case (OneFound ob')
      obtain s2 rest' r2 where rec: "retrieve_objects E i ?flt rest ?s1 = (s2, rest', r2)"
        by (cases "retrieve_objects E i ?flt rest ?s1") auto
      from retrieve_objects_length [OF rec] Cons.prems(3) OneFound rec
      have "length objects' = length (ob # rest)" by (auto simp: Let_def)
      then show ?thesis unfolding e0 using OneFound 0 by (simp del: fun_upd_apply)
    next
      case OneNotFound
      with Cons.prems(3) have "s' = ?s1" "objects' = ob # rest"
        "r = Err (ErrObjectNotFound ''cannot find the object for the given ID'')"
        by (simp_all add: Let_def)
      then show ?thesis unfolding e0 using OneNotFound 0 by (simp add: lookup_event_def del: fun_upd_apply)
    next
      case (OneErr err)
      with Cons.prems(3) have "s' = ?s1" "objects' = ob # rest" "r = Err (ErrCannotExecuteQuery err)"
        by (simp_all add: Let_def)
      then show ?thesis unfolding e0 using OneErr 0 by (simp add: lookup_event_def del: fun_upd_apply)
    qed
  next
    case (Suc k')
    from Cons.prems(2) Suc
    have "db_one E (io s @ map (lookup_event i flt) (take 0 (ob # rest))) i
            (flt(''_id'' \<mapsto> BString (Identifier ((ob # rest) ! 0)))) ((ob # rest) ! 0) = OneFound (found 0)"
      by blast
    then have f0: "db_one E (io s) i ?flt ob = OneFound (found 0)"
      by (simp del: fun_upd_apply)
    obtain s2 rest' r2 where rec: "retrieve_objects E i ?flt rest ?s1 = (s2, rest', r2)"
      by (cases "retrieve_objects E i ?flt rest ?s1") auto
    from Cons.prems(3) f0 rec have res: "s' = s2" "objects' = backport (found 0) # rest'" "r = r2"
      by (simp_all add: Let_def)
    have k': "k' \<le> length rest" using Cons.prems(1) Suc by simp
    have ev: "\<And>xs. map (lookup_event i ?flt) xs = map (lookup_event i flt) xs"
      by (simp add: lookup_event_def)
    have ok: "\<forall>j<k'. db_one E (io ?s1 @ map (lookup_event i ?flt) (take j rest)) i
                  (?flt(''_id'' \<mapsto> BString (Identifier (rest ! j)))) (rest ! j) = OneFound ((found \<circ> Suc) j)"
    proof (intro allI impI)
      fix j assume "j < k'"
      then have "Suc j < k" using Suc by simp
      with Cons.prems(2)
      have "db_one E (io s @ map (lookup_event i flt) (take (Suc j) (ob # rest))) i
                  (flt(''_id'' \<mapsto> BString (Identifier ((ob # rest) ! Suc j)))) ((ob # rest) ! Suc j)
              = OneFound (found (Suc j))"
        by blast
      then show "db_one E (io ?s1 @ map (lookup_event i ?flt) (take j rest)) i
                  (?flt(''_id'' \<mapsto> BString (Identifier (rest ! j)))) (rest ! j) = OneFound ((found \<circ> Suc) j)"
        by (simp add: ev del: fun_upd_apply) (simp add: lookup_event_def del: fun_upd_apply)
    qed
    from Cons.IH [OF k' ok rec]
    have IH: "length rest' = length rest"
      "\<forall>j<k'. rest' ! j = backport (found (Suc j))"
      "k' = length rest \<longrightarrow> r2 = Ok \<and> io s2 = io ?s1 @ map (lookup_event i flt) rest"
      "k' < length rest \<longrightarrow>
            (db_one E (io ?s1 @ map (lookup_event i flt) (take k' rest)) i
                  (flt(''_id'' \<mapsto> BString (Identifier (rest ! k')))) (rest ! k') = OneNotFound
               \<longrightarrow> r2 = Err (ErrObjectNotFound ''cannot find the object for the given ID'')
                   \<and> io s2 = io ?s1 @ map (lookup_event i flt) (take (Suc k') rest)
                   \<and> drop k' rest' = drop k' rest)
          \<and> (\<forall>err. db_one E (io ?s1 @ map (lookup_event i flt) (take k' rest)) i
                  (flt(''_id'' \<mapsto> BString (Identifier (rest ! k')))) (rest ! k') = OneErr err
               \<longrightarrow> r2 = Err (ErrCannotExecuteQuery err)
                   \<and> io s2 = io ?s1 @ map (lookup_event i flt) (take (Suc k') rest)
                   \<and> drop k' rest' = drop k' rest)"
      by (simp_all add: ev del: fun_upd_apply)
    have a: "length objects' = length (ob # rest)" using IH(1) res by simp
    have b: "\<forall>j<k. objects' ! j = backport (found j)"
    proof (intro allI impI)
      fix j assume "j < k"
      then show "objects' ! j = backport (found j)"
        using IH(2) res(2) Suc by (cases j) auto
    qed
    have e0: "io ?s1 = io s @ [lookup_event i flt ob]" by (simp add: lookup_event_def)
    show ?thesis
      using a b IH(3,4) unfolding res(1,3) Suc e0 by (simp add: res(2) del: fun_upd_apply)
  qed
qed

lemma Retrieve_nonempty:
  assumes "objects = first # rest" "Retrieve E s context objects = (s', objects', r)"
  shows "\<exists>s1 s2. io s1 = io s \<and> io s' = io s2
           \<and> retrieve_objects E (identity first) (compiled_filter E (context_or_new context)) objects s1
               = (s2, objects', r)"
proof -
  let ?s1 = "snd (session_copy s)"
  obtain s2 o2 r2 where ro:
    "retrieve_objects E (identity first) (compiled_filter E (context_or_new context)) objects ?s1
       = (s2, o2, r2)"
    by (cases "retrieve_objects E (identity first) (compiled_filter E (context_or_new context)) objects ?s1")
      auto
  have "io ?s1 = io s" by (simp add: session_copy_def)
  moreover have "io s' = io s2 \<and> o2 = objects' \<and> r2 = r"
    using assms(2) ro unfolding assms(1)
    by (auto simp: Retrieve_def Let_def session_copy_def session_close_def
        simp del: retrieve_objects.simps split: prod.splits)
  ultimately show ?thesis using ro by blast
qed

text \<open>
  C8. In a Retrieve call on a non-empty list of objects, let the first \<open>k\<close> lookups find
  their records. Then the first \<open>k\<close> objects are the records found, backported: in each of
  them a field that the record holds at the zero value and that has a declared default
  holds that default, every other field holds what the record holds, the identity, the
  identifier and the number of fields are those of the record, and a record whose object
  declares no defaults is returned as found. If there is no further object the call
  returns success. If the lookup of object \<open>k\<close> matches no record the call returns
  ObjectNotFound; if it fails otherwise, with message \<open>err\<close>, the call returns
  CannotExecuteQuery with \<open>err\<close>; in both cases no later lookup is made and the objects
  from \<open>k\<close> on are as they were. An ObjectNotFound error is never a CannotExecuteQuery
  error.
\<close>

theorem Retrieve_lookups:
  assumes ne: "objects \<noteq> []" and k: "k \<le> length objects"
    and i: "i = identity (hd objects)" and flt: "flt = compiled_filter E (context_or_new context)"
    and ok: "\<forall>j<k. db_one E (io s @ map (lookup_event i flt) (take j objects)) i
                  (flt(''_id'' \<mapsto> BString (Identifier (objects ! j)))) (objects ! j) = OneFound (found j)"
    and run: "Retrieve E s context objects = (s', objects', r)"
  shows "length objects' = length objects
       \<and> (\<forall>j<k. objects' ! j = backport (found j))
       \<and> (k = length objects \<longrightarrow> r = Ok \<and> io s' = io s @ map (lookup_event i flt) objects)
       \<and> (k < length objects \<longrightarrow>
            (db_one E (io s @ map (lookup_event i flt) (take k objects)) i
                  (flt(''_id'' \<mapsto> BString (Identifier (objects ! k)))) (objects ! k) = OneNotFound
               \<longrightarrow> r = Err (ErrObjectNotFound ''cannot find the object for the given ID'')
                   \<and> io s' = io s @ map (lookup_event i flt) (take (Suc k) objects)
                   \<and> drop k objects' = drop k objects)
          \<and> (\<forall>err. db_one E (io s @ map (lookup_event i flt) (take k objects)) i
                  (flt(''_id'' \<mapsto> BString (Identifier (objects ! k)))) (objects ! k) = OneErr err
               \<longrightarrow> r = Err (ErrCannotExecuteQuery err)
                   \<and> io s' = io s @ map (lookup_event i flt) (take (Suc k) objects)
                   \<and> drop k objects' = drop k objects))
       \<and> (\<forall>m m'. ErrObjectNotFound m \<noteq> ErrCannotExecuteQuery m')
       \<and> (\<forall>j<k. \<forall>ds m key v d.
             defaults (found j) = Some ds \<and> m < length (attributes (found j))
             \<and> attributes (found j) ! m = (key, v) \<and> is_zero v \<and> map_of ds key = Some d
             \<longrightarrow> attributes (objects' ! j) ! m = (key, d))
       \<and> (\<forall>j<k. \<forall>ds m key v.
             defaults (found j) = Some ds \<and> m < length (attributes (found j))
             \<and> attributes (found j) ! m = (key, v) \<and> (\<not> is_zero v \<or> map_of ds key = None)
             \<longrightarrow> attributes (objects' ! j) ! m = (key, v))
       \<and> (\<forall>j<k. defaults (found j) = None \<longrightarrow> objects' ! j = found j)
       \<and> (\<forall>j<k. identity (objects' ! j) = identity (found j)
                \<and> Identifier (objects' ! j) = Identifier (found j)
                \<and> defaults (objects' ! j) = defaults (found j)
                \<and> length (attributes (objects' ! j)) = length (attributes (found j)))"
proof -
  obtain first rest where objs: "objects = first # rest" using ne by (cases objects) auto
  have i': "identity first = i" by (simp add: i objs)
  from Retrieve_nonempty [OF objs run]
  obtain s1 s2 :: mongoManipulator where io1: "io s1 = io s" and io2: "io s' = io s2"
    and ro: "retrieve_objects E i flt objects s1 = (s2, objects', r)"
    unfolding i' flt by blast
  have ok1: "\<forall>j<k. db_one E (io s1 @ map (lookup_event i flt) (take j objects)) i
                  (flt(''_id'' \<mapsto> BString (Identifier (objects ! j)))) (objects ! j) = OneFound (found j)"
    using ok unfolding io1 .
  note L = retrieve_objects_first_failure [OF k ok1 ro]
  from L have bp: "\<forall>j<k. objects' ! j = backport (found j)" by blast
  have main: "length objects' = length objects
       \<and> (\<forall>j<k. objects' ! j = backport (found j))
       \<and> (k = length objects \<longrightarrow> r = Ok \<and> io s' = io s @ map (lookup_event i flt) objects)
       \<and> (k < length objects \<longrightarrow>
            (db_one E (io s @ map (lookup_event i flt) (take k objects)) i
                  (flt(''_id'' \<mapsto> BString (Identifier (objects ! k)))) (objects ! k) = OneNotFound
               \<longrightarrow> r = Err (ErrObjectNotFound ''cannot find the object for the given ID'')
                   \<and> io s' = io s @ map (lookup_event i flt) (take (Suc k) objects)
                   \<and> drop k objects' = drop k objects)
          \<and> (\<forall>err. db_one E (io s @ map (lookup_event i flt) (take k objects)) i
                  (flt(''_id'' \<mapsto> BString (Identifier (objects ! k)))) (objects ! k) = OneErr err
               \<longrightarrow> r = Err (ErrCannotExecuteQuery err)
                   \<and> io s' = io s @ map (lookup_event i flt) (take (Suc k) objects)
                   \<and> drop k objects' = drop k objects))
       \<and> (\<forall>m m'. ErrObjectNotFound m \<noteq> ErrCannotExecuteQuery m')"
    using L unfolding io1 io2 by simp
  have restored: "\<forall>j<k. \<forall>ds m key v d.
             defaults (found j) = Some ds \<and> m < length (attributes (found j))
             \<and> attributes (found j) ! m = (key, v) \<and> is_zero v \<and> map_of ds key = Some d
             \<longrightarrow> attributes (objects' ! j) ! m = (key, d)"
  proof (intro allI impI)
    fix j ds m key v d
    assume j: "j < k"
      and a: "defaults (found j) = Some ds \<and> m < length (attributes (found j))
             \<and> attributes (found j) ! m = (key, v) \<and> is_zero v \<and> map_of ds key = Some d"
    from a have "attributes (backport (found j)) ! m = (key, d)"
      by (intro backport_restores [of "found j" ds m key v d]) simp_all
    with bp j show "attributes (objects' ! j) ! m = (key, d)" by simp
  qed
  have kept: "\<forall>j<k. \<forall>ds m key v.
             defaults (found j) = Some ds \<and> m < length (attributes (found j))
             \<and> attributes (found j) ! m = (key, v) \<and> (\<not> is_zero v \<or> map_of ds key = None)
             \<longrightarrow> attributes (objects' ! j) ! m = (key, v)"
  proof (intro allI impI)
    fix j ds m key v
    assume j: "j < k"
      and a: "defaults (found j) = Some ds \<and> m < length (attributes (found j))
             \<and> attributes (found j) ! m = (key, v) \<and> (\<not> is_zero v \<or> map_of ds key = None)"
    from a have "attributes (backport (found j)) ! m = (key, v)"
      by (intro backport_keeps [of "found j" ds m key v]) simp_all
    with bp j show "attributes (objects' ! j) ! m = (key, v)" by simp
  qed
  have plain: "\<forall>j<k. defaults (found j) = None \<longrightarrow> objects' ! j = found j"
    using bp by (simp add: backport_not_specifiable)
  have frame: "\<forall>j<k. identity (objects' ! j) = identity (found j)
                \<and> Identifier (objects' ! j) = Identifier (found j)
                \<and> defaults (objects' ! j) = defaults (found j)
                \<and> length (attributes (objects' ! j)) = length (attributes (found j))"
    using bp by (simp add: backport_frame)
  show ?thesis using main restored kept plain frame by blast
qed

text \<open>
  The theorem on Alice, who is found with an empty role and comes back with the declared
  role \<open>''member''\<close> and her name as it was, and then Bob, who is not found.
\<close>

theorem Retrieve_lookups_witness:
  "[alice, bob] \<noteq> [] \<and> (1::nat) \<le> length [alice, bob]
 \<and> db_one bob_missing_env [] users [''_id'' \<mapsto> BString ''a1''] alice = OneFound alice
 \<and> db_one bob_missing_env [EvOne users [''_id'' \<mapsto> BString ''a1'']] users
        [''_id'' \<mapsto> BString ''b2''] bob = OneNotFound
 \<and> defaults alice = Some [(''role'', BString ''member'')]
 \<and> attributes alice ! 0 = (''name'', BString ''Alice'') \<and> \<not> is_zero (BString ''Alice'')
 \<and> attributes alice ! 1 = (''role'', BString []) \<and> is_zero (BString [])
 \<and> Retrieve bob_missing_env new_manipulator None [alice, bob]
      = (fst (Retrieve bob_missing_env new_manipulator None [alice, bob]),
         [alice\<lparr>attributes := [(''name'', BString ''Alice''), (''role'', BString ''member'')]\<rparr>, bob],
         Err (ErrObjectNotFound ''cannot find the object for the given ID''))
 \<and> attributes (hd (fst (snd (Retrieve bob_missing_env new_manipulator None [alice, bob])))) ! 1
      = (''role'', BString ''member'')
 \<and> attributes (hd (fst (snd (Retrieve bob_missing_env new_manipulator None [alice, bob])))) ! 0
      = (''name'', BString ''Alice'')
 \<and> io (fst (Retrieve bob_missing_env new_manipulator None [alice, bob]))
      = [EvOne users [''_id'' \<mapsto> BString ''a1''], EvOne users [''_id'' \<mapsto> BString ''b2'']]"
proof -
  let ?E = bob_missing_env
  obtain s' objects' r where run: "Retrieve ?E new_manipulator None [alice, bob] = (s', objects', r)"
    by (cases "Retrieve ?E new_manipulator None [alice, bob]") auto
  have ne: "[alice, bob] \<noteq> []" and k: "(1::nat) \<le> length [alice, bob]" by simp_all
  have i: "users = identity (hd [alice, bob])" by (simp add: alice_def)
  have flt: "Map.empty = compiled_filter ?E (context_or_new None)"
    by (simp add: compiled_filter_def context_or_new_def NewContext_def)
  have io0: "io new_manipulator = []" by (simp add: new_manipulator_def)
  have a: "db_one ?E [] users [''_id'' \<mapsto> BString ''a1''] alice = OneFound alice"
    by (simp add: bob_missing_env_def alice_def)
  have b: "db_one ?E [EvOne users [''_id'' \<mapsto> BString ''a1'']] users
        [''_id'' \<mapsto> BString ''b2''] bob = OneNotFound"
    by (simp add: bob_missing_env_def bob_def)
  have ida: "Identifier alice = ''a1''" and idb: "Identifier bob = ''b2''"
    by (simp_all add: alice_def bob_def)
  have ok: "\<forall>j<1. db_one ?E (io new_manipulator @ map (lookup_event users Map.empty) (take j [alice, bob]))
                 users (Map.empty(''_id'' \<mapsto> BString (Identifier ([alice, bob] ! j)))) ([alice, bob] ! j)
              = OneFound ((\<lambda>_. alice) j)"
    using a by (simp add: io0 ida)
  have nf: "db_one ?E (io new_manipulator @ map (lookup_event users Map.empty) (take 1 [alice, bob]))
                 users (Map.empty(''_id'' \<mapsto> BString (Identifier ([alice, bob] ! 1)))) ([alice, bob] ! 1)
              = OneNotFound"
    using b by (simp add: io0 ida idb lookup_event_def)
  note T = Retrieve_lookups [OF ne k i flt ok run]
  have d: "defaults alice = Some [(''role'', BString ''member'')]"
    and a0: "attributes alice ! 0 = (''name'', BString ''Alice'')"
    and a1: "attributes alice ! 1 = (''role'', BString [])"
    and la: "length (attributes alice) = 2"
    by (simp_all add: alice_def)
  from T have len: "length objects' = 2" and o0: "objects' ! 0 = backport alice" by simp_all
  have z: "(0::nat) < 1" by simp
  note restored = T [THEN conjunct2, THEN conjunct2, THEN conjunct2, THEN conjunct2, THEN conjunct2,
      THEN conjunct1, rule_format, OF z]
  note kept = T [THEN conjunct2, THEN conjunct2, THEN conjunct2, THEN conjunct2, THEN conjunct2,
      THEN conjunct2, THEN conjunct1, rule_format, OF z]
  note frame = T [THEN conjunct2, THEN conjunct2, THEN conjunct2, THEN conjunct2, THEN conjunct2,
      THEN conjunct2, THEN conjunct2, THEN conjunct2, rule_format, OF z]
  have role: "attributes (objects' ! 0) ! 1 = (''role'', BString ''member'')"
    by (rule restored [of "[(''role'', BString ''member'')]" 1 "''role''" "BString []" "BString ''member''"])
      (use d a1 la in simp)
  have name: "attributes (objects' ! 0) ! 0 = (''name'', BString ''Alice'')"
    by (rule kept [of "[(''role'', BString ''member'')]" 0 "''name''" "BString ''Alice''"])
      (use d a0 la in simp)
  have fr: "identity (objects' ! 0) = identity alice" "Identifier (objects' ! 0) = Identifier alice"
    "defaults (objects' ! 0) = defaults alice" "length (attributes (objects' ! 0)) = length (attributes alice)"
    using frame by simp_all
  from T nf have r: "r = Err (ErrObjectNotFound ''cannot find the object for the given ID'')"
    and io: "io s' = io new_manipulator @ map (lookup_event users Map.empty) (take (Suc 1) [alice, bob])"
    and dr: "drop 1 objects' = drop 1 [alice, bob]"
    by simp_all
  from len obtain x y where xy: "objects' = [x, y]"
    by (cases objects'; cases "tl objects'"; cases "tl (tl objects')") auto
  have at: "attributes (objects' ! 0) = [(''name'', BString ''Alice''), (''role'', BString ''member'')]"
  proof (rule nth_equalityI)
    show "length (attributes (objects' ! 0)) = length [(''name'', BString ''Alice''), (''role'', BString ''member'')]"
      using fr(4) la by simp
  next
    fix n assume "n < length (attributes (objects' ! 0))"
    then have "n = 0 \<or> n = 1" using fr(4) la by auto
    then show "attributes (objects' ! 0) ! n = [(''name'', BString ''Alice''), (''role'', BString ''member'')] ! n"
      using role name by auto
  qed
  have x: "x = alice\<lparr>attributes := [(''name'', BString ''Alice''), (''role'', BString ''member'')]\<rparr>"
    using at fr(1,2,3) by (intro obj.equality) (simp_all add: xy)
  have objs: "objects' = [alice\<lparr>attributes := [(''name'', BString ''Alice''), (''role'', BString ''member'')]\<rparr>, bob]"
    using dr x by (simp add: xy)
  have io': "io s' = [EvOne users [''_id'' \<mapsto> BString ''a1''], EvOne users [''_id'' \<mapsto> BString ''b2'']]"
    using io by (simp add: io0 lookup_event_def ida idb)
  show ?thesis using ne k a b d a0 a1 by (simp add: run r objs io')
qed

subsection \<open>Create\<close>

lemma length_new_identifiers: "length (new_identifiers E n children) = length children"
  by (induction children arbitrary: n) auto

lemma nth_new_identifiers:
  "j < length children \<Longrightarrow>
     new_identifiers E n children ! j = (children ! j)\<lparr>Identifier := NewObjectId E (n + j)\<rparr>"
proof (induction children arbitrary: n j)
  case Nil
  then show ?case by simp
next
  case (Cons child rest)
  then show ?case by (cases j) auto
qed

lemma Identifier_new_identifiers:
  "map Identifier (new_identifiers E n children) = map (NewObjectId E) [n..<n + length children]"
proof (induction children arbitrary: n)
  case Nil
  then show ?case by simp
next
  case (Cons child rest)
  have "[n..<n + length (child # rest)] = n # [Suc n..<Suc n + length rest]"
    by (subst upt_rec) simp
  with Cons.IH [of "Suc n"] show ?case by simp
qed

lemma distinct_new_identifiers:
  assumes "inj (NewObjectId E)"
  shows "distinct (map Identifier (new_identifiers E n children))"
proof -
  have "inj_on (NewObjectId E) (set [n..<n + length children])"
    using assms by (rule inj_on_subset) simp
  then show ?thesis by (simp add: Identifier_new_identifiers distinct_map)
qed

lemma stage_oid_count:
  "stage tid i x (s\<lparr>oid_count := n\<rparr>) = (stage tid i x s)\<lparr>oid_count := n\<rparr>"
  by (simp add: stage_def update_transaction_def split: option.splits)

lemma stage_all_oid_count:
  "stage_all tid i xs (s\<lparr>oid_count := n\<rparr>) = (stage_all tid i xs s)\<lparr>oid_count := n\<rparr>"
  by (induction xs arbitrary: s) (simp_all add: stage_oid_count)

lemma create_children_first_failure:
  assumes "k \<le> length children"
    and "\<forall>j<k. snd (run_finalizer fin (new_identifiers E (oid_count s) children ! j)) = None"
    and "create_children E fin tid i children s = (s', children', err)"
  shows "(k = length children \<longrightarrow>
            err = None
          \<and> children' = map (finalized fin) (new_identifiers E (oid_count s) children)
          \<and> s' = (stage_all tid i
                    (map BulkInsert (map (finalized fin) (new_identifiers E (oid_count s) children))) s)
                  \<lparr>oid_count := oid_count s + length children\<rparr>)
       \<and> (k < length children \<longrightarrow>
            (\<forall>e. snd (run_finalizer fin (new_identifiers E (oid_count s) children ! k)) = Some e \<longrightarrow>
               err = Some e
             \<and> children' = map (finalized fin) (take (Suc k) (new_identifiers E (oid_count s) children))
                            @ drop (Suc k) children
             \<and> s' = (stage_all tid i
                       (map BulkInsert (map (finalized fin)
                          (take k (new_identifiers E (oid_count s) children)))) s)
                     \<lparr>oid_count := oid_count s + Suc k\<rparr>))"
  using assms
proof (induction children arbitrary: s k s' children' err)
  case Nil
  then show ?case by simp
next
  case (Cons child rest)
  let ?c = "child\<lparr>Identifier := NewObjectId E (oid_count s)\<rparr>"
  let ?s0 = "s\<lparr>oid_count := Suc (oid_count s)\<rparr>"
  obtain c' e' where rf: "run_finalizer fin ?c = (c', e')" by (cases "run_finalizer fin ?c")
  have fc: "finalized fin ?c = c'" by (simp add: finalized_def rf)
  show ?case
  proof (cases k)
    case 0
    show ?thesis
    proof (cases e')
      case None
      obtain s2 rest' err2 where rec:
        "create_children E fin tid i rest (stage tid i (BulkInsert c') ?s0) = (s2, rest', err2)"
        by (cases "create_children E fin tid i rest (stage tid i (BulkInsert c') ?s0)") auto
      show ?thesis using 0 rf None by (simp add: fc)
    next
      case (Some e)
      with Cons.prems(3) rf have "s' = ?s0" "children' = c' # rest" "err = Some e"
        by (simp_all add: Let_def)
      then show ?thesis using 0 rf Some by (simp add: fc)
    qed
  next
    case (Suc k')
    from Cons.prems(2) Suc
    have "snd (run_finalizer fin (new_identifiers E (oid_count s) (child # rest) ! 0)) = None"
      by blast
    then have e': "e' = None" using rf by simp
    let ?s1 = "stage tid i (BulkInsert c') ?s0"
    obtain s2 rest' err2 where rec: "create_children E fin tid i rest ?s1 = (s2, rest', err2)"
      by (cases "create_children E fin tid i rest ?s1") auto
    from Cons.prems(3) rf e' rec have res: "s' = s2" "children' = c' # rest'" "err = err2"
      by (simp_all add: Let_def)
    have oc: "oid_count ?s1 = Suc (oid_count s)"
      by (simp add: stage_def update_transaction_def split: option.splits)
    have k': "k' \<le> length rest" using Cons.prems(1) Suc by simp
    have ok: "\<forall>j<k'. snd (run_finalizer fin (new_identifiers E (oid_count ?s1) rest ! j)) = None"
    proof (intro allI impI)
      fix j assume "j < k'"
      then have "Suc j < k" using Suc by simp
      with Cons.prems(2)
      have "snd (run_finalizer fin (new_identifiers E (oid_count s) (child # rest) ! Suc j)) = None"
        by blast
      then show "snd (run_finalizer fin (new_identifiers E (oid_count ?s1) rest ! j)) = None"
        unfolding oc by simp
    qed
    have st: "\<And>xs. stage_all tid i xs ?s1 = (stage_all tid i (BulkInsert c' # xs) s)\<lparr>oid_count := Suc (oid_count s)\<rparr>"
      by (simp add: stage_all_oid_count stage_oid_count)
    from Cons.IH [OF k' ok rec] show ?thesis
      unfolding oc st res(1,3) Suc using rf e' by (simp add: res(2) fc)
  qed
qed

lemma staged_oid_count: "staged (s\<lparr>oid_count := n\<rparr>) tid i = staged s tid i"
  by (simp add: staged_def)

lemma Create_nonempty:
  assumes "children = first # rest"
    and "retrieveTransaction E s (context_or_new context) = (s1, tid, t, commit)"
    and "create_children E (CreateFinalizer (context_or_new context)) tid (identity first) children
           (update_transaction tid (bulkForIdentity (identity first)) s1) = (s2, children2, err)"
  shows "err = Some e \<Longrightarrow> Create E s context children = (s2, children2, Err (ErrCallback e))"
    and "err = None \<Longrightarrow> \<not> commit \<Longrightarrow> Create E s context children = (s2, children2, Ok)"
    and "err = None \<Longrightarrow> commit \<Longrightarrow>
           Create E s context children
             = (fst (Commit E s2 (id t)), children2, snd (Commit E s2 (id t)))"
  using assms(2,3) unfolding assms(1)
  by (simp_all add: Create_def Let_def del: create_children.simps split: prod.splits)

text \<open>
  C5. In a Create call whose context carries a finalizer, every child the loop reaches is
  given a newly drawn identifier before the finalizer sees it: child \<open>j\<close> goes to the
  finalizer carrying the identifier of draw \<open>j\<close> of the call, and the draws of a generator
  that never repeats are pairwise distinct. If the finalizer accepts the first \<open>k\<close>
  children and fails on child \<open>k\<close> with error \<open>e\<close>, the call returns \<open>e\<close>; the batch holds
  what it held before followed by the inserts of the first \<open>k\<close> children, as the finalizer
  left them, and no insert of child \<open>k\<close> or of a later child; the later children are
  untouched; nothing is sent to the backend.
\<close>

theorem Create_finalizer_failure:
  assumes ne: "children \<noteq> []"
    and c: "c = context_or_new context" and fin: "CreateFinalizer c = Some f"
    and i: "i = identity (hd children)" and tid: "tid = call_tid E s c"
    and fed: "fed = new_identifiers E (oid_count s) children"
    and k: "k < length children"
    and ok: "\<forall>j<k. snd (f (fed ! j)) = None"
    and fail: "snd (f (fed ! k)) = Some e"
    and run: "Create E s context children = (s', children', r)"
  shows "r = Err (ErrCallback e)
       \<and> children' = map (\<lambda>ob. fst (f ob)) (take (Suc k) fed) @ drop (Suc k) children
       \<and> staged s' tid i = Some (staged_ops s tid i @ map (\<lambda>ob. BulkInsert (fst (f ob))) (take k fed))
       \<and> io s' = io s
       \<and> (\<forall>j<length children. fed ! j = (children ! j)\<lparr>Identifier := NewObjectId E (oid_count s + j)\<rparr>)
       \<and> (inj (NewObjectId E) \<longrightarrow> distinct (map Identifier fed))"
proof -
  obtain first rest where ch: "children = first # rest" using ne by (cases children) auto
  have i': "identity first = i" by (simp add: i ch)
  obtain s1 tid' t commit where rt: "retrieveTransaction E s c = (s1, tid', t, commit)"
    by (cases "retrieveTransaction E s c") auto
  note R = retrieveTransaction_props [OF rt]
  have tid': "tid' = tid" using R(1) tid by simp
  let ?s1 = "update_transaction tid (bulkForIdentity i) s1"
  have oc: "oid_count ?s1 = oid_count s" by (simp add: update_transaction_frame R(6))
  obtain s2 children2 err where cc:
    "create_children E (CreateFinalizer c) tid i children ?s1 = (s2, children2, err)"
    by (cases "create_children E (CreateFinalizer c) tid i children ?s1") auto
  have fz: "\<And>ob. run_finalizer (CreateFinalizer c) ob = f ob" "\<And>ob. finalized (CreateFinalizer c) ob = fst (f ob)"
    by (simp_all add: run_finalizer_def finalized_def fin)
  have fz': "finalized (CreateFinalizer c) = (\<lambda>ob. fst (f ob))" using fz(2) by (rule ext)
  have ok': "\<forall>j<k. snd (run_finalizer (CreateFinalizer c) (new_identifiers E (oid_count ?s1) children ! j)) = None"
    using ok by (simp add: fz oc fed)
  have fail': "snd (run_finalizer (CreateFinalizer c) (new_identifiers E (oid_count ?s1) children ! k)) = Some e"
    using fail by (simp add: fz oc fed)
  from create_children_first_failure [OF less_imp_le [OF k] ok' cc] k fail'
  have err: "err = Some e"
    and ch2: "children2 = map (finalized (CreateFinalizer c)) (take (Suc k) fed) @ drop (Suc k) children"
    and s2: "s2 = (stage_all tid i (map BulkInsert (map (finalized (CreateFinalizer c)) (take k fed))) ?s1)
                    \<lparr>oid_count := oid_count ?s1 + Suc k\<rparr>"
    unfolding oc fed by simp_all
  from Create_nonempty(1) [OF ch rt [unfolded c tid'] cc [unfolded c i' [symmetric]] err] run
  have res: "s' = s2" "children' = children2" "r = Err (ErrCallback e)"
    by simp_all
  have "staged ?s1 tid i = Some (staged_ops s1 tid i)"
    by (rule staged_bulkForIdentity) (use R(3) tid' in simp)
  then have st: "staged s' tid i = Some (staged_ops s tid i @ map (\<lambda>ob. BulkInsert (fst (f ob))) (take k fed))"
    unfolding res(1) s2 using R(5) [of i] tid'
    by (simp add: staged_oid_count staged_stage_all fz' comp_def)
  have io: "io s' = io s"
    unfolding res(1) s2 by (simp add: stage_all_frame update_transaction_frame R(4))
  have ids: "\<forall>j<length children. fed ! j = (children ! j)\<lparr>Identifier := NewObjectId E (oid_count s + j)\<rparr>"
    by (simp add: fed nth_new_identifiers)
  have dist: "inj (NewObjectId E) \<longrightarrow> distinct (map Identifier fed)"
    by (simp add: fed distinct_new_identifiers)
  show ?thesis using res(2,3) ch2 st io ids dist by (simp add: fz')
qed

lemma example_ids:
  "NewObjectId (example_env n r) 0 = ''a''" "NewObjectId (example_env n r) (Suc 0) = ''aa''"
  "NewTransactionID (example_env n r) 0 = ''t''"
  by (simp_all add: example_env_def)

lemma reject_bob_simps:
  "reject_bob (alice\<lparr>Identifier := x\<rparr>) = (alice\<lparr>Identifier := x\<rparr>, None)"
  "reject_bob (bob\<lparr>Identifier := x\<rparr>) = (bob\<lparr>Identifier := x\<rparr>, Some ''rejected'')"
  by (simp_all add: reject_bob_def alice_def bob_def)

text \<open>
  The theorem on Alice and Bob created in the open transaction \<open>''tx''\<close> with a finalizer
  that rejects Bob: the insert of Alice is staged after what the batch held, Bob has his
  new identifier and no insert.
\<close>

theorem Create_finalizer_failure_witness:
  "[alice, bob] \<noteq> [] \<and> CreateFinalizer tx_rejecting_bob = Some reject_bob
 \<and> (1::nat) < length [alice, bob]
 \<and> snd (reject_bob (alice\<lparr>Identifier := ''a''\<rparr>)) = None
 \<and> snd (reject_bob (bob\<lparr>Identifier := ''aa''\<rparr>)) = Some ''rejected''
 \<and> Create (example_env 10 RunOk) open_manipulator (Some tx_rejecting_bob) [alice, bob]
      = (fst (Create (example_env 10 RunOk) open_manipulator (Some tx_rejecting_bob) [alice, bob]),
         [alice\<lparr>Identifier := ''a''\<rparr>, bob\<lparr>Identifier := ''aa''\<rparr>],
         Err (ErrCallback ''rejected''))
 \<and> staged (fst (Create (example_env 10 RunOk) open_manipulator (Some tx_rejecting_bob) [alice, bob]))
        ''tx'' users
      = Some [BulkInsert alice, BulkInsert (alice\<lparr>Identifier := ''a''\<rparr>)]
 \<and> io (fst (Create (example_env 10 RunOk) open_manipulator (Some tx_rejecting_bob) [alice, bob])) = []"
proof -
  let ?E = "example_env 10 RunOk" and ?c = tx_rejecting_bob
  let ?fed = "[alice\<lparr>Identifier := ''a''\<rparr>, bob\<lparr>Identifier := ''aa''\<rparr>]"
  obtain s' children' r where run: "Create ?E open_manipulator (Some ?c) [alice, bob] = (s', children', r)"
    by (cases "Create ?E open_manipulator (Some ?c) [alice, bob]") auto
  have ne: "[alice, bob] \<noteq> []" and k: "(1::nat) < length [alice, bob]" by simp_all
  have c: "?c = context_or_new (Some ?c)" by (simp add: context_or_new_def)
  have fin: "CreateFinalizer ?c = Some reject_bob" by (simp add: tx_rejecting_bob_def)
  have i: "users = identity (hd [alice, bob])" by (simp add: alice_def)
  have tid: "''tx'' = call_tid ?E open_manipulator ?c"
    by (simp add: call_tid_def tx_rejecting_bob_def)
  have oc: "oid_count open_manipulator = 0" by (simp add: open_manipulator_def new_manipulator_def)
  have fed: "?fed = new_identifiers ?E (oid_count open_manipulator) [alice, bob]"
    by (simp add: oc example_ids)
  have ok: "\<forall>j<1. snd (reject_bob (?fed ! j)) = None" by (simp add: reject_bob_simps)
  have fail: "snd (reject_bob (?fed ! 1)) = Some ''rejected''" by (simp add: reject_bob_simps)
  have st: "staged_ops open_manipulator ''tx'' users = [BulkInsert alice]"
    by (simp add: staged_ops_def staged_def open_manipulator_def new_manipulator_def)
  have io0: "io open_manipulator = []" by (simp add: open_manipulator_def new_manipulator_def)
  note T = Create_finalizer_failure [OF ne c fin i tid fed k ok fail run]
  from T have "r = Err (ErrCallback ''rejected'')" "children' = ?fed"
    "staged s' ''tx'' users = Some [BulkInsert alice, BulkInsert (alice\<lparr>Identifier := ''a''\<rparr>)]"
    "io s' = []"
    by (simp_all add: st io0 reject_bob_simps)
  then show ?thesis using ne fin k by (simp add: run reject_bob_simps)
qed

lemma fresh_registry_restored:
  "transactions s tid = None \<Longrightarrow> (transactions s)(tid := None) = transactions s"
  by (rule ext) simp

text \<open>
  C6, as the code has it. In a Create call on one or more objects (so on two or more) with
  an empty TransactionID, when the generated id is new to the registry and no finalizer
  fails, one registry entry is created and removed within the call, its session is closed,
  the registry is afterwards as it was before, the one round trip of the call runs the batch
  of the inserts of the objects, the call returns what Commit returns for it, and every
  object has been given the identifier of its own draw; unless the finalizer replaced
  them, these identifiers are the ones the objects carry afterwards, pairwise distinct for
  a generator that never repeats.
\<close>

theorem Create_implicit_commits:
  assumes ne: "children \<noteq> []"
    and c: "c = context_or_new context" and impl: "TransactionID c = []"
    and tid: "tid = NewTransactionID E (tid_count s)" and fresh: "transactions s tid = None"
    and i: "i = identity (hd children)"
    and fed: "fed = new_identifiers E (oid_count s) children"
    and ok: "\<forall>j<length children. snd (run_finalizer (CreateFinalizer c) (fed ! j)) = None"
    and run: "Create E s context children = (s', children', r)"
  shows "reg_log s' = reg_log s @ [Registered tid, Unregistered tid]
       \<and> transactions s' = transactions s
       \<and> open_sessions s' = open_sessions s - {next_session s}
       \<and> io s' = io s @ [EvRun i (map BulkInsert children')]
       \<and> (\<exists>s2. io s2 = io s \<and> staged s2 tid i = Some (map BulkInsert children')
               \<and> Commit E s2 tid = (s', r))
       \<and> r = run_outcome (db_run E (io s) i (map BulkInsert children'))
       \<and> children' = map (finalized (CreateFinalizer c)) fed
       \<and> (\<forall>j<length children. fed ! j = (children ! j)\<lparr>Identifier := NewObjectId E (oid_count s + j)\<rparr>)
       \<and> (CreateFinalizer c = None \<longrightarrow> children' = fed)
       \<and> ((\<forall>ob. Identifier (finalized (CreateFinalizer c) ob) = Identifier ob) \<longrightarrow>
             (\<forall>j<length children. Identifier (children' ! j) = NewObjectId E (oid_count s + j))
           \<and> (inj (NewObjectId E) \<longrightarrow> distinct (map Identifier children')))"
proof -
  obtain first rest where ch: "children = first # rest" using ne by (cases children) auto
  have i': "identity first = i" by (simp add: i ch)
  let ?t = "\<lparr>id = tid, session = next_session s, bulks = []\<rparr>"
  let ?s1 = "s\<lparr>transactions := (transactions s)(tid \<mapsto> ?t),
               open_sessions := insert (next_session s) (open_sessions s),
               next_session := Suc (next_session s),
               reg_log := reg_log s @ [Registered tid],
               tid_count := Suc (tid_count s)\<rparr>"
  have rt: "retrieveTransaction E s c = (?s1, tid, ?t, True)"
    using retrieveTransaction_implicit_new [OF impl fresh [unfolded tid]] by (simp add: tid)
  let ?s2 = "update_transaction tid (bulkForIdentity i) ?s1"
  have oc: "oid_count ?s2 = oid_count s" by (simp add: update_transaction_frame)
  have t2: "transactions ?s2 tid = Some (?t\<lparr>bulks := [(i, [])]\<rparr>)"
    by (simp add: update_transaction_def bulkForIdentity_def)
  obtain s3 children3 err where cc:
    "create_children E (CreateFinalizer c) tid i children ?s2 = (s3, children3, err)"
    by (cases "create_children E (CreateFinalizer c) tid i children ?s2") auto
  let ?created = "map (finalized (CreateFinalizer c)) fed"
  have ok': "\<forall>j<length children.
      snd (run_finalizer (CreateFinalizer c) (new_identifiers E (oid_count ?s2) children ! j)) = None"
    using ok unfolding oc fed .
  from create_children_first_failure [OF le_refl ok' cc]
  have err: "err = None" and ch3: "children3 = ?created"
    and s3: "s3 = (stage_all tid i (map BulkInsert ?created) ?s2)\<lparr>oid_count := oid_count ?s2 + length children\<rparr>"
    unfolding oc fed by simp_all
  have t3: "transactions s3 tid = Some (?t\<lparr>bulks := [(i, map BulkInsert ?created)]\<rparr>)"
    unfolding s3 by (simp add: stage_all_registered [OF t2] foldl_bulk_append_single)
  have io3: "io s3 = io s"
    unfolding s3 by (simp add: stage_all_frame update_transaction_frame)
  have rl3: "reg_log s3 = reg_log s @ [Registered tid]"
    unfolding s3 by (simp add: stage_all_frame update_transaction_frame)
  have os3: "open_sessions s3 = insert (next_session s) (open_sessions s)"
    unfolding s3 by (simp add: stage_all_frame update_transaction_frame)
  have tr3: "(transactions s3)(tid := None) = transactions s"
  proof -
    have "transactions s3 = (transactions ?s2)(tid \<mapsto> ?t\<lparr>bulks := [(i, map BulkInsert ?created)]\<rparr>)"
      unfolding s3 by (simp add: stage_all_registered [OF t2] foldl_bulk_append_single)
    moreover have "transactions ?s2 = (transactions s)(tid \<mapsto> bulkForIdentity i ?t)"
      by (simp add: update_transaction_def)
    ultimately have "(transactions s3)(tid := None) = (transactions s)(tid := None)"
      by simp
    then show ?thesis by (simp add: fresh_registry_restored [OF fresh])
  qed
  have cm: "Commit E s3 tid
      = (unregisterTransaction tid
           (closeSession (?t\<lparr>bulks := [(i, map BulkInsert ?created)]\<rparr>)
              (s3\<lparr>io := io s3 @ [EvRun i (map BulkInsert ?created)]\<rparr>)),
         run_outcome (db_run E (io s3) i (map BulkInsert ?created)))"
    by (rule Commit_single [OF t3]) simp
  from Create_nonempty(3) [OF ch rt [unfolded c] cc [unfolded c i' [symmetric]] err] run
  have res: "(s', r) = Commit E s3 tid" "children' = children3" by simp_all
  have s': "s' = unregisterTransaction tid
           (closeSession (?t\<lparr>bulks := [(i, map BulkInsert ?created)]\<rparr>)
              (s3\<lparr>io := io s3 @ [EvRun i (map BulkInsert ?created)]\<rparr>))"
    and r: "r = run_outcome (db_run E (io s) i (map BulkInsert ?created))"
    using res(1) unfolding cm io3 by simp_all
  have 1: "reg_log s' = reg_log s @ [Registered tid, Unregistered tid]"
    unfolding s' by (simp add: unregisterTransaction_def closeSession_def session_close_def rl3)
  have 2: "transactions s' = transactions s"
    unfolding s' by (simp add: unregisterTransaction_def closeSession_def session_close_def tr3)
  have 3: "open_sessions s' = open_sessions s - {next_session s}"
    unfolding s' by (simp add: unregisterTransaction_def closeSession_def session_close_def os3)
  have 4: "io s' = io s @ [EvRun i (map BulkInsert children')]"
    unfolding s' res(2) ch3
    by (simp add: unregisterTransaction_def closeSession_def session_close_def io3)
  have 5: "\<exists>s2. io s2 = io s \<and> staged s2 tid i = Some (map BulkInsert children')
               \<and> Commit E s2 tid = (s', r)"
    using io3 t3 res(1) unfolding res(2) ch3 by (intro exI [of _ s3]) (simp add: staged_def)
  have 6: "r = run_outcome (db_run E (io s) i (map BulkInsert children'))"
    unfolding res(2) ch3 by (rule r)
  have 7: "children' = ?created" unfolding res(2) by (rule ch3)
  have 8: "\<forall>j<length children. fed ! j = (children ! j)\<lparr>Identifier := NewObjectId E (oid_count s + j)\<rparr>"
    by (simp add: fed nth_new_identifiers)
  have 9: "CreateFinalizer c = None \<longrightarrow> children' = fed"
  proof
    assume "CreateFinalizer c = None"
    then have "finalized (CreateFinalizer c) = (\<lambda>ob. ob)"
      by (intro ext) (simp add: finalized_def run_finalizer_def)
    then show "children' = fed" unfolding 7 by simp
  qed
  have 10: "(\<forall>ob. Identifier (finalized (CreateFinalizer c) ob) = Identifier ob) \<longrightarrow>
             (\<forall>j<length children. Identifier (children' ! j) = NewObjectId E (oid_count s + j))
           \<and> (inj (NewObjectId E) \<longrightarrow> distinct (map Identifier children'))"
  proof (intro impI)
    assume keep: "\<forall>ob. Identifier (finalized (CreateFinalizer c) ob) = Identifier ob"
    then have m: "map Identifier children' = map Identifier fed"
      unfolding 7 by (simp add: comp_def)
    have len: "length fed = length children" by (simp add: fed length_new_identifiers)
    have a: "\<forall>j<length children. Identifier (children' ! j) = NewObjectId E (oid_count s + j)"
    proof (intro allI impI)
      fix j assume j: "j < length children"
      then have "Identifier (children' ! j) = Identifier (fed ! j)"
        unfolding 7 using keep len by simp
      also have "\<dots> = NewObjectId E (oid_count s + j)" using 8 j by simp
      finally show "Identifier (children' ! j) = NewObjectId E (oid_count s + j)" .
    qed
    have b: "inj (NewObjectId E) \<longrightarrow> distinct (map Identifier children')"
      unfolding m fed by (simp add: distinct_new_identifiers)
    show "(\<forall>j<length children. Identifier (children' ! j) = NewObjectId E (oid_count s + j))
           \<and> (inj (NewObjectId E) \<longrightarrow> distinct (map Identifier children'))"
      using a b by blast
  qed
  show ?thesis using 1 2 3 4 5 6 7 8 9 10 by blast
qed

text \<open>
  The theorem on Alice and Bob created with no context: one transaction \<open>''t''\<close> comes and
  goes, one batch of two inserts runs, and the two carry the identifiers \<open>''a''\<close> and \<open>''aa''\<close>.
\<close>

theorem Create_implicit_commits_witness:
  "[alice, bob] \<noteq> [] \<and> TransactionID (context_or_new (None :: unit Context option)) = []
 \<and> transactions new_manipulator ''t'' = None
 \<and> Create (example_env 10 RunOk) new_manipulator None [alice, bob]
      = (fst (Create (example_env 10 RunOk) new_manipulator None [alice, bob]),
         [alice\<lparr>Identifier := ''a''\<rparr>, bob\<lparr>Identifier := ''aa''\<rparr>], Ok)
 \<and> reg_log (fst (Create (example_env 10 RunOk) new_manipulator None [alice, bob]))
      = [Registered ''t'', Unregistered ''t'']
 \<and> transactions (fst (Create (example_env 10 RunOk) new_manipulator None [alice, bob])) = Map.empty
 \<and> io (fst (Create (example_env 10 RunOk) new_manipulator None [alice, bob]))
      = [EvRun users [BulkInsert (alice\<lparr>Identifier := ''a''\<rparr>), BulkInsert (bob\<lparr>Identifier := ''aa''\<rparr>)]]"
proof -
  let ?E = "example_env 10 RunOk"
  let ?c = "context_or_new (None :: unit Context option)"
  let ?fed = "[alice\<lparr>Identifier := ''a''\<rparr>, bob\<lparr>Identifier := ''aa''\<rparr>]"
  obtain s' children' r where run: "Create ?E new_manipulator None [alice, bob] = (s', children', r)"
    by (cases "Create ?E new_manipulator None [alice, bob]") auto
  have ne: "[alice, bob] \<noteq> []" by simp
  have impl: "TransactionID ?c = []" and nofin: "CreateFinalizer ?c = None"
    by (simp_all add: context_or_new_def NewContext_def)
  have tid: "''t'' = NewTransactionID ?E (tid_count new_manipulator)"
    by (simp add: new_manipulator_def example_ids)
  have fresh: "transactions new_manipulator ''t'' = None" by (simp add: new_manipulator_def)
  have i: "users = identity (hd [alice, bob])" by (simp add: alice_def)
  have fed: "?fed = new_identifiers ?E (oid_count new_manipulator) [alice, bob]"
    by (simp add: new_manipulator_def example_ids)
  have ok: "\<forall>j<length [alice, bob]. snd (run_finalizer (CreateFinalizer ?c) (?fed ! j)) = None"
    by (simp add: nofin run_finalizer_def)
  have new: "reg_log new_manipulator = []" "io new_manipulator = []"
    "transactions new_manipulator = Map.empty"
    by (simp_all add: new_manipulator_def)
  have ro: "\<And>h b. db_run ?E h users b = RunOk" by (simp add: example_env_def)
  note T = Create_implicit_commits [OF ne refl impl tid fresh i fed ok run]
  from T nofin have ch: "children' = ?fed" by blast
  from T have "reg_log s' = [Registered ''t'', Unregistered ''t'']" "transactions s' = Map.empty"
    "io s' = [EvRun users (map BulkInsert ?fed)]" "r = Ok"
    unfolding ch new by (simp_all add: ro run_outcome_def)
  then show ?thesis using ne impl fresh by (simp add: run ch)
qed

text \<open>
  Alice and Bob created with no transaction id and a finalizer that rejects Bob: the call
  returns the error of the finalizer, not a result of Commit; nothing is sent to the
  backend; the transaction \<open>''t''\<close> of the call is registered and not removed.
\<close>

theorem Create_implicit_commits_counterexample:
  "(2::nat) \<le> length [alice, bob] \<and> TransactionID rejecting_bob = []
 \<and> snd (snd (Create (example_env 10 RunOk) new_manipulator (Some rejecting_bob) [alice, bob]))
      = Err (ErrCallback ''rejected'')
 \<and> reg_log (fst (Create (example_env 10 RunOk) new_manipulator (Some rejecting_bob) [alice, bob]))
      = [Registered ''t'']
 \<and> io (fst (Create (example_env 10 RunOk) new_manipulator (Some rejecting_bob) [alice, bob])) = []
 \<and> transactions (fst (Create (example_env 10 RunOk) new_manipulator (Some rejecting_bob) [alice, bob])) ''t''
      = Some \<lparr>id = ''t'', session = 0, bulks = [(users, [BulkInsert (alice\<lparr>Identifier := ''a''\<rparr>)])]\<rparr>"
proof -
  let ?E = "example_env 10 RunOk"
  let ?t = "\<lparr>id = ''t'', session = 0, bulks = []\<rparr>"
  let ?s1 = "new_manipulator\<lparr>transactions := [''t'' \<mapsto> ?t], open_sessions := {0},
               next_session := Suc 0, reg_log := [Registered ''t''], tid_count := Suc 0\<rparr>"
  let ?s3 = "new_manipulator\<lparr>transactions :=
                 [''t'' \<mapsto> \<lparr>id = ''t'', session = 0, bulks = [(users, [BulkInsert (alice\<lparr>Identifier := ''a''\<rparr>)])]\<rparr>],
               open_sessions := {0}, next_session := Suc 0, reg_log := [Registered ''t''],
               tid_count := Suc 0, oid_count := Suc (Suc 0)\<rparr>"
  have impl: "TransactionID rejecting_bob = []" by (simp add: rejecting_bob_def NewContext_def)
  have c: "context_or_new (Some rejecting_bob) = rejecting_bob" by (simp add: context_or_new_def)
  have fin: "CreateFinalizer rejecting_bob = Some reject_bob" by (simp add: rejecting_bob_def)
  have fresh: "transactions new_manipulator (NewTransactionID ?E (tid_count new_manipulator)) = None"
    by (simp add: new_manipulator_def)
  have rt: "retrieveTransaction ?E new_manipulator (context_or_new (Some rejecting_bob)) = (?s1, ''t'', ?t, True)"
    unfolding c retrieveTransaction_implicit_new [OF impl fresh]
    by (simp add: new_manipulator_def example_ids)
  have ia: "identity alice = users" by (simp add: alice_def)
  have cc: "create_children ?E (CreateFinalizer (context_or_new (Some rejecting_bob))) ''t'' (identity alice)
              [alice, bob] (update_transaction ''t'' (bulkForIdentity (identity alice)) ?s1)
            = (?s3, [alice\<lparr>Identifier := ''a''\<rparr>, bob\<lparr>Identifier := ''aa''\<rparr>], Some ''rejected'')"
    unfolding c fin ia
    by (simp add: update_transaction_def bulkForIdentity_def new_manipulator_def example_ids
        run_finalizer_def reject_bob_simps stage_def Let_def)
  have "Create ?E new_manipulator (Some rejecting_bob) [alice, bob]
      = (?s3, [alice\<lparr>Identifier := ''a''\<rparr>, bob\<lparr>Identifier := ''aa''\<rparr>], Err (ErrCallback ''rejected''))"
    by (rule Create_nonempty(1) [OF refl rt cc refl])
  then show ?thesis using impl by (simp add: new_manipulator_def)
qed

lemma create_children_frame:
  assumes "create_children E fin tid i children s = (s', children', err)"
    and "transactions s tid = Some t"
  shows "io s' = io s \<and> reg_log s' = reg_log s \<and> open_sessions s' = open_sessions s
       \<and> (\<exists>bs. transactions s' tid = Some (t\<lparr>bulks := bs\<rparr>))"
  using assms
proof (induction children arbitrary: s s' children' err t)
  case Nil
  then have "s' = s" by simp
  moreover have "t = t\<lparr>bulks := bulks t\<rparr>" by simp
  ultimately show ?case using Nil.prems(2) by metis
next
  case (Cons child rest)
  let ?c = "child\<lparr>Identifier := NewObjectId E (oid_count s)\<rparr>"
  let ?s0 = "s\<lparr>oid_count := Suc (oid_count s)\<rparr>"
  obtain c' e' where rf: "run_finalizer fin ?c = (c', e')" by (cases "run_finalizer fin ?c")
  show ?case
  proof (cases e')
    case (Some e)
    with Cons.prems(1) rf have "s' = ?s0" by (simp add: Let_def)
    moreover have "t = t\<lparr>bulks := bulks t\<rparr>" by simp
    ultimately show ?thesis using Cons.prems(2)
      by (metis mongoManipulator.select_convs mongoManipulator.surjective mongoManipulator.update_convs(6))
  next
    case None
    let ?s1 = "stage tid i (BulkInsert c') ?s0"
    let ?t1 = "t\<lparr>bulks := bulk_append i (BulkInsert c') (bulks t)\<rparr>"
    obtain s2 rest' err2 where rec: "create_children E fin tid i rest ?s1 = (s2, rest', err2)"
      by (cases "create_children E fin tid i rest ?s1") auto
    from Cons.prems(1) rf None rec have res: "s' = s2" by (simp add: Let_def)
    have t0: "transactions ?s0 tid = Some t" using Cons.prems(2) by simp
    have t1: "transactions ?s1 tid = Some ?t1"
      by (simp add: stage_registered [OF t0])
    have fr: "io ?s1 = io s" "reg_log ?s1 = reg_log s" "open_sessions ?s1 = open_sessions s"
      by (simp_all add: stage_registered [OF t0])
    from Cons.IH [OF rec t1] obtain bs where
      "io s2 = io s" "reg_log s2 = reg_log s" "open_sessions s2 = open_sessions s"
      "transactions s2 tid = Some (?t1\<lparr>bulks := bs\<rparr>)"
      unfolding fr by blast
    then show ?thesis unfolding res by (intro conjI exI [of _ bs]) simp_all
  qed
qed

lemma run_bulks_no_callback: "run_bulks E bs s = (s', r) \<Longrightarrow> r \<noteq> Err (ErrCallback e)"
proof (induction bs arbitrary: s)
  case Nil
  then show ?case by auto
next
  case (Cons ib bs)
  obtain i b where ib: "ib = (i, b)" by (cases ib)
  show ?case
  proof (cases "db_run E (io s) i b")
    case RunOk
    with Cons.prems ib have "run_bulks E bs (s\<lparr>io := io s @ [EvRun i b]\<rparr>) = (s', r)"
      by (simp add: Let_def)
    then show ?thesis by (rule Cons.IH)
  next
    case (RunDup m)
    with Cons.prems ib show ?thesis by (auto simp: Let_def)
  next
    case (RunErr m)
    with Cons.prems ib show ?thesis by (auto simp: Let_def)
  qed
qed

lemma Commit_no_callback: "snd (Commit E s tid) \<noteq> Err (ErrCallback e)"
proof (cases "transactionWithID s tid")
  case None
  then show ?thesis by (simp add: Commit_def)
next
  case (Some t)
  obtain s1 r1 where rb: "run_bulks E (bulks t) s = (s1, r1)" by (cases "run_bulks E (bulks t) s")
  from run_bulks_no_callback [OF rb] Some rb show ?thesis by (simp add: Commit_def)
qed

lemma Commit_other:
  "tid' \<noteq> tid \<Longrightarrow> transactionWithID (fst (Commit E s tid')) tid = transactionWithID s tid"
proof (cases "transactionWithID s tid'")
  case None
  then show ?thesis by (simp add: Commit_def)
next
  case (Some t)
  assume ne: "tid' \<noteq> tid"
  obtain s1 r1 where rb: "run_bulks E (bulks t) s = (s1, r1)" by (cases "run_bulks E (bulks t) s")
  have "s1 = s\<lparr>io := io s1\<rparr>" by (rule run_bulks_frame [OF rb])
  then have "transactions s1 = transactions s"
    by (metis mongoManipulator.select_convs(1) mongoManipulator.surjective mongoManipulator.update_convs(4))
  with Some rb ne show ?thesis
    by (simp add: Commit_def transactionWithID_def unregisterTransaction_def closeSession_def
        session_close_def)
qed

lemma Abort_other:
  "tid' \<noteq> tid \<Longrightarrow> transactionWithID (fst (Abort s tid')) tid = transactionWithID s tid"
  by (simp add: Abort_def transactionWithID_def unregisterTransaction_def closeSession_def
      session_close_def split: option.splits)

text \<open>
  C10. When a Create call with an empty TransactionID, whose generated id is new to the
  registry, returns the error of its finalizer, the transaction created for the call is
  neither committed nor aborted: it is registered under the generated id, with no removal
  recorded, its session is open, nothing was sent to the backend, and the call has
  returned the error of the finalizer alone. Commit and Abort of any other id leave the
  entry where it is.
\<close>

theorem Create_finalizer_failure_leaks:
  assumes c: "c = context_or_new context" and impl: "TransactionID c = []"
    and tid: "tid = NewTransactionID E (tid_count s)" and fresh: "transactions s tid = None"
    and run: "Create E s context children = (s', children', Err (ErrCallback e))"
  shows "\<exists>t. transactionWithID s' tid = Some t \<and> id t = tid
           \<and> session t = next_session s \<and> session t \<in> open_sessions s'
           \<and> reg_log s' = reg_log s @ [Registered tid] \<and> io s' = io s
           \<and> (\<forall>E' :: 'a env. \<forall>tid'. tid' \<noteq> tid \<longrightarrow>
                 transactionWithID (fst (Commit E' s' tid')) tid = Some t)
           \<and> (\<forall>tid'. tid' \<noteq> tid \<longrightarrow> transactionWithID (fst (Abort s' tid')) tid = Some t)"
proof -
  let ?t = "\<lparr>id = tid, session = next_session s, bulks = []\<rparr>"
  let ?s1 = "s\<lparr>transactions := (transactions s)(tid \<mapsto> ?t),
               open_sessions := insert (next_session s) (open_sessions s),
               next_session := Suc (next_session s),
               reg_log := reg_log s @ [Registered tid],
               tid_count := Suc (tid_count s)\<rparr>"
  have rt: "retrieveTransaction E s c = (?s1, tid, ?t, True)"
    using retrieveTransaction_implicit_new [OF impl fresh [unfolded tid]] by (simp add: tid)
  obtain first rest where ch: "children = first # rest"
    using run rt by (cases children) (auto simp: Create_def c)
  let ?i = "identity first"
  let ?s2 = "update_transaction tid (bulkForIdentity ?i) ?s1"
  have t2: "transactions ?s2 tid = Some (bulkForIdentity ?i ?t)"
    by (simp add: update_transaction_def)
  obtain s3 children3 err where cc:
    "create_children E (CreateFinalizer (context_or_new context)) tid ?i children ?s2 = (s3, children3, err)"
    by (cases "create_children E (CreateFinalizer (context_or_new context)) tid ?i children ?s2") auto
  note CN = Create_nonempty [OF ch rt [unfolded c] cc]
  have s': "s' = s3"
  proof (cases err)
    case None
    from CN(3) [OF None] run have "snd (Commit E s3 (id ?t)) = Err (ErrCallback e)" by simp
    with Commit_no_callback show ?thesis by blast
  next
    case (Some e')
    from CN(1) [OF Some] run show ?thesis by simp
  qed
  from create_children_frame [OF cc t2] obtain bs where
    fr: "io s3 = io ?s2" "reg_log s3 = reg_log ?s2" "open_sessions s3 = open_sessions ?s2"
    and t3: "transactions s3 tid = Some (bulkForIdentity ?i ?t\<lparr>bulks := bs\<rparr>)"
    by blast
  let ?t3 = "bulkForIdentity ?i ?t\<lparr>bulks := bs\<rparr>"
  have tw: "transactionWithID s' tid = Some ?t3" by (simp add: s' transactionWithID_def t3)
  have 1: "id ?t3 = tid" "session ?t3 = next_session s"
    by (simp_all add: bulkForIdentity_def split: option.splits)
  have 2: "session ?t3 \<in> open_sessions s'"
    unfolding s' fr 1 by (simp add: update_transaction_frame)
  have 3: "reg_log s' = reg_log s @ [Registered tid]" "io s' = io s"
    unfolding s' fr by (simp_all add: update_transaction_frame)
  have 4: "\<forall>E' :: 'a env. \<forall>tid'. tid' \<noteq> tid \<longrightarrow>
                 transactionWithID (fst (Commit E' s' tid')) tid = Some ?t3"
    using tw by (simp add: Commit_other)
  have 5: "\<forall>tid'. tid' \<noteq> tid \<longrightarrow> transactionWithID (fst (Abort s' tid')) tid = Some ?t3"
    using tw by (simp add: Abort_other)
  show ?thesis using tw 1 2 3 4 5 by blast
qed

text \<open>
  The theorem on Alice and Bob created with no transaction id and a finalizer that
  rejects Bob; a later Commit of \<open>''tx''\<close> does not touch the entry \<open>''t''\<close>.
\<close>

theorem Create_finalizer_failure_leaks_witness:
  "TransactionID (context_or_new (Some rejecting_bob)) = []
 \<and> transactions new_manipulator ''t'' = None
 \<and> snd (snd (Create (example_env 10 RunOk) new_manipulator (Some rejecting_bob) [alice, bob]))
      = Err (ErrCallback ''rejected'')
 \<and> transactionWithID (fst (Create (example_env 10 RunOk) new_manipulator (Some rejecting_bob) [alice, bob]))
      ''t'' \<noteq> None
 \<and> 0 \<in> open_sessions (fst (Create (example_env 10 RunOk) new_manipulator (Some rejecting_bob) [alice, bob]))
 \<and> reg_log (fst (Create (example_env 10 RunOk) new_manipulator (Some rejecting_bob) [alice, bob]))
      = [Registered ''t'']
 \<and> transactionWithID
      (fst (Commit (example_env 10 RunOk)
         (fst (Create (example_env 10 RunOk) new_manipulator (Some rejecting_bob) [alice, bob])) ''tx''))
      ''t'' \<noteq> None"
proof -
  let ?E = "example_env 10 RunOk"
  obtain s' children' r where run: "Create ?E new_manipulator (Some rejecting_bob) [alice, bob] = (s', children', r)"
    by (cases "Create ?E new_manipulator (Some rejecting_bob) [alice, bob]") auto
  have impl: "TransactionID (context_or_new (Some rejecting_bob)) = []"
    by (simp add: context_or_new_def rejecting_bob_def NewContext_def)
  have tid: "''t'' = NewTransactionID ?E (tid_count new_manipulator)"
    by (simp add: new_manipulator_def example_ids)
  have fresh: "transactions new_manipulator ''t'' = None" by (simp add: new_manipulator_def)
  have r: "r = Err (ErrCallback ''rejected'')"
    using run
    by (simp add: Create_def context_or_new_def rejecting_bob_def NewContext_def
        retrieveTransaction_def transactionWithID_def newTransaction_def session_copy_def
        registerTransaction_def new_manipulator_def example_ids update_transaction_def
        bulkForIdentity_def run_finalizer_def reject_bob_simps stage_def Let_def
        split: prod.splits)
  have new: "reg_log new_manipulator = []" "next_session new_manipulator = 0"
    by (simp_all add: new_manipulator_def)
  have ne: "''tx'' \<noteq> ''t''" by simp
  from Create_finalizer_failure_leaks [OF refl impl tid fresh run [unfolded r]]
  obtain t where t: "transactionWithID s' ''t'' = Some t" "session t = 0" "session t \<in> open_sessions s'"
    "reg_log s' = [Registered ''t'']"
    and others: "\<forall>E' :: unit env. \<forall>tid'. tid' \<noteq> ''t'' \<longrightarrow>
                 transactionWithID (fst (Commit E' s' tid')) ''t'' = Some t"
    unfolding new by auto
  from others ne have "transactionWithID (fst (Commit ?E s' ''tx'')) ''t'' = Some t" by blast
  with t show ?thesis using impl fresh by (simp add: run r)
qed

end
